theory Spec2Isabelle
  imports Main "HOL-Library.AList" "HOL-Library.Sublist"
begin

section \<open>QScripts: the file monitor and the dependency graph of qscripts.cpp\<close>

text \<open>
  A shallow embedding of the monitoring core of \<^verbatim>\<open>src/qscripts.cpp\<close>: the file records
  (\<^verbatim>\<open>fileinfo_t\<close>, \<^verbatim>\<open>script_info_t\<close>, \<^verbatim>\<open>active_script_info_t\<close>), the manifest parser
  \<^verbatim>\<open>parse_deps_for_script\<close>, the expander \<^verbatim>\<open>expand_string\<close>, the executor and the timer
  callback \<^verbatim>\<open>filemon_timer_cb\<close>.

  Strings are \<^typ>\<open>string\<close> (NUL-free C strings), \<^verbatim>\<open>qtime64_t\<close> values are naturals (they are
  only compared and reset to 0), \<^verbatim>\<open>int\<close> options are \<^typ>\<open>int\<close>.  The C++ inheritance chain is
  a chain of record extensions, so that a function written for \<^verbatim>\<open>fileinfo_t\<close> applies to the
  derived structures as it does in the source.
\<close>

subsection \<open>Data model\<close>

datatype filemod_status_e = not_found | not_modified | modified

type_synonym qtime64_t = nat

record fileinfo_t =
  file_path :: string
  modified_time :: qtime64_t

record script_info_t = fileinfo_t +
  reload_cmd :: string
  pkg_base :: string

text \<open>
  \<^verbatim>\<open>dep_scripts\<close> is a \<^verbatim>\<open>std::unordered_map\<close>: an association list with one entry per key
  (\<^const>\<open>AList.update\<close> overwrites in place).  The iteration order of the C++ container is
  unspecified; the model iterates in list order.
\<close>

record active_script_info_t = script_info_t +
  trigger_file :: fileinfo_t
  b_keep_trigger_file :: bool
  dep_indices :: "fileinfo_t list"
  dep_scripts :: "(string \<times> script_info_t) list"

record expand_ctx_t =
  ctx_script_file :: string
  ctx_main_file :: bool
  ctx_base_dir :: string
  ctx_pkg_base :: string
  ctx_reload_cmd :: string

text \<open>
  The file system as the plugin sees it: the modification time of the file a path names
  (\<^const>\<open>None\<close>: there is no such file), and the lines \<^verbatim>\<open>qfopen\<close>/\<^verbatim>\<open>qgetline\<close> deliver for
  it (\<^const>\<open>None\<close>: it cannot be opened).  A relative path is one more key: it names what the
  process finds from its working directory.
\<close>

record filesys =
  mtime_of :: "string \<Rightarrow> qtime64_t option"
  lines_of :: "string \<Rightarrow> string list option"

text \<open>A script language of the host (\<^verbatim>\<open>extlang_t\<close>): only success or failure is observed.\<close>

record extlang_t =
  eval_snippet :: "string \<Rightarrow> bool"
  compile_file :: "string \<Rightarrow> bool"
  call_func :: "string \<Rightarrow> bool"
  is_idc :: bool

text \<open>
  The helpers of the host SDK and of \<^verbatim>\<open>utils_impl.cpp\<close> that the source calls but does not
  define are parameters of the model: every theorem below holds for any choice of them.
\<close>

record host =
  make_abs_path :: "string \<Rightarrow> string \<Rightarrow> string"
  qdirname :: "string \<Rightarrow> string"
  get_basename :: "string \<Rightarrow> string"
  get_file_ext :: "string \<Rightarrow> string option"
  qgetenv :: "string \<Rightarrow> string option"
  find_extlang_by_ext :: "string \<Rightarrow> extlang_t option"
  process_ui_action :: "string \<Rightarrow> bool"
  SDIRCHAR :: char

text \<open>
  Reading one past the terminator of a C string (line 411 of the source, when the script path
  equals the package base) has no defined result: a call that does so has the result
  \<^verbatim>\<open>Inl OutOfBounds\<close>.  Every other call returns.
\<close>

datatype fault = OutOfBounds

text \<open>
  What a call leaves behind in the host: its log lines and its calls into the host.  For the
  parser these are the probes of line 338: \<^verbatim>\<open>DepProbe line path found\<close> says that the
  dependency line \<^verbatim>\<open>line\<close> (trimmed) was resolved to \<^verbatim>\<open>path\<close> and that
  \<^verbatim>\<open>get_file_modification_time\<close> answered \<^verbatim>\<open>found\<close> for it.
\<close>

datatype message =
  ScriptNotFound | UnknownLanguage | Executing | CompileFailed | MainFailed
  | ReloadWarning | NoLongerExists

datatype event =
  Msg message string
  | MsgClear
  | EvalSnippet string string bool
  | CallFunc string string bool
  | CompileFile string bool
  | ProcessUiAction string bool
  | Unlink string
  | RefreshChooser
  | DepProbe string string bool

subsection \<open>fileinfo_t\<close>

definition empty_fileinfo :: fileinfo_t where
  "empty_fileinfo = \<lparr>file_path = [], modified_time = 0\<rparr>"

definition fi_empty :: "'a fileinfo_t_scheme \<Rightarrow> bool" where
  "fi_empty fi = (file_path fi = [])"

text \<open>
  Modelled from the spec: \<^verbatim>\<open>get_file_modification_time\<close> (utils_impl.cpp) is not among the
  sources; the spec gives it as \<^verbatim>\<open>mtime(path) -> (found, t)\<close>.  \<^const>\<open>None\<close> is the result
  \<^verbatim>\<open>false\<close>, and the output parameter of the call is then left as it was.
\<close>

definition get_file_modification_time :: "filesys \<Rightarrow> string \<Rightarrow> qtime64_t option" where
  "get_file_modification_time fs path = mtime_of fs path"

declare get_file_modification_time_def [simp]

text \<open>\<^verbatim>\<open>refresh\<close>: the path is replaced when one is given, then the file is probed.\<close>

definition refresh :: "filesys \<Rightarrow> string option \<Rightarrow> 'a fileinfo_t_scheme \<Rightarrow> bool \<times> 'a fileinfo_t_scheme" where
  "refresh fs path fi =
     (let fi1 = (case path of None \<Rightarrow> fi | Some p \<Rightarrow> fi\<lparr>file_path := p\<rparr>)
      in case get_file_modification_time fs (file_path fi1) of
           None \<Rightarrow> (False, fi1)
         | Some t \<Rightarrow> (True, fi1\<lparr>modified_time := t\<rparr>))"

definition get_modification_status ::
  "filesys \<Rightarrow> bool \<Rightarrow> 'a fileinfo_t_scheme \<Rightarrow> filemod_status_e \<times> 'a fileinfo_t_scheme" where
  "get_modification_status fs update_mtime fi =
     (case get_file_modification_time fs (file_path fi) of
        None \<Rightarrow> (not_found, if update_mtime then fi\<lparr>modified_time := 0\<rparr> else fi)
      | Some cur_mtime \<Rightarrow>
          if cur_mtime = modified_time fi then (not_modified, fi)
          else (modified, if update_mtime then fi\<lparr>modified_time := cur_mtime\<rparr> else fi))"

definition invalidate :: "'a fileinfo_t_scheme \<Rightarrow> 'a fileinfo_t_scheme" where
  "invalidate fi = fi\<lparr>modified_time := 0\<rparr>"

definition has_reload_directive :: "'a script_info_t_scheme \<Rightarrow> bool" where
  "has_reload_directive s = (reload_cmd s \<noteq> [])"

subsection \<open>active_script_info_t\<close>

definition has_dep :: "active_script_info_t \<Rightarrow> string \<Rightarrow> script_info_t option" where
  "has_dep sel dep_file = map_of (dep_scripts sel) dep_file"

definition trigger_based :: "active_script_info_t \<Rightarrow> bool" where
  "trigger_based sel = (\<not> fi_empty (trigger_file sel))"

fun dep_index_loop :: "filesys \<Rightarrow> bool \<Rightarrow> fileinfo_t list \<Rightarrow> filemod_status_e \<times> fileinfo_t list" where
  "dep_index_loop fs upd [] = (not_modified, [])"
| "dep_index_loop fs upd (dep_file # rest) =
     (let (r, dep_file') = get_modification_status fs upd dep_file
      in if r \<noteq> not_modified then (r, dep_file' # rest)
         else (let (r', rest') = dep_index_loop fs upd rest in (r', dep_file' # rest')))"

definition is_any_dep_index_modified ::
  "filesys \<Rightarrow> bool \<Rightarrow> active_script_info_t \<Rightarrow> filemod_status_e \<times> active_script_info_t" where
  "is_any_dep_index_modified fs update_mtime sel =
     (let (r, idx) = dep_index_loop fs update_mtime (dep_indices sel)
      in (r, sel\<lparr>dep_indices := idx\<rparr>))"

definition add_dep_index :: "filesys \<Rightarrow> string \<Rightarrow> active_script_info_t \<Rightarrow> bool \<times> active_script_info_t" where
  "add_dep_index fs dep_file sel =
     (case get_file_modification_time fs dep_file of
        None \<Rightarrow> (False, sel)
      | Some t \<Rightarrow>
          (True, sel\<lparr>dep_indices := dep_indices sel @ [\<lparr>file_path = dep_file, modified_time = t\<rparr>]\<rparr>))"

text \<open>\<^verbatim>\<open>operator=(const script_info_t &)\<close>: path and time are copied, both containers emptied.\<close>

definition assign_script ::
  "'a script_info_t_scheme \<Rightarrow> active_script_info_t \<Rightarrow> active_script_info_t" where
  "assign_script rhs sel =
     sel\<lparr>file_path := file_path rhs, modified_time := modified_time rhs,
         dep_scripts := [], dep_indices := []\<rparr>"

definition clear_active :: "active_script_info_t \<Rightarrow> active_script_info_t" where
  "clear_active sel =
     sel\<lparr>file_path := [], modified_time := 0, dep_indices := [], dep_scripts := [],
         trigger_file := empty_fileinfo, b_keep_trigger_file := False,
         reload_cmd := [], pkg_base := []\<rparr>"

definition invalidate_all_scripts :: "active_script_info_t \<Rightarrow> active_script_info_t" where
  "invalidate_all_scripts sel =
     (invalidate sel)\<lparr>dep_scripts := map (\<lambda>kv. (fst kv, invalidate (snd kv))) (dep_scripts sel)\<rparr>"

subsection \<open>Expansion of \<^verbatim>\<open>$token$\<close> placeholders\<close>

text \<open>
  \<^verbatim>\<open>RE_EXPANDER\<close> is the ECMAScript regular expression \<^verbatim>\<open>\$(.+?)\$\<close>: a dollar, a shortest
  non-empty run of characters other than line terminators, a dollar.  \<^verbatim>\<open>match_token\<close> is
  given the text after an opening dollar and returns the group and the text after the closing
  dollar.  The first character of the group may itself be a dollar; no later one can be.
\<close>

definition is_line_terminator :: "char \<Rightarrow> bool" where
  "is_line_terminator c = (c = CHR 0x0A \<or> c = CHR 0x0D)"

fun scan_close :: "string \<Rightarrow> (string \<times> string) option" where
  "scan_close [] = None"
| "scan_close (c # cs) =
     (if c = CHR ''$'' then Some ([], cs)
      else if is_line_terminator c then None
      else (case scan_close cs of None \<Rightarrow> None | Some (g, r) \<Rightarrow> Some (c # g, r)))"

fun match_token :: "string \<Rightarrow> (string \<times> string) option" where
  "match_token [] = None"
| "match_token (c # cs) =
     (if is_line_terminator c then None
      else (case scan_close cs of None \<Rightarrow> None | Some (g, r) \<Rightarrow> Some (c # g, r)))"

lemma scan_close_length: "scan_close cs = Some (g, r) \<Longrightarrow> length r < length cs"
  by (induction cs arbitrary: g r) (auto split: if_splits option.splits)

lemma match_token_length: "match_token cs = Some (g, r) \<Longrightarrow> length r < length cs"
  by (cases cs) (auto split: if_splits option.splits dest: scan_close_length)

text \<open>
  Modelled from the spec: the overload of \<^verbatim>\<open>std::regex_replace\<close> that takes a callback
  (utils_impl.cpp) is not among the sources.  The spec makes expansion a single pass: every
  match, leftmost first and not overlapping, is replaced by what the callback returns for it,
  and the result is not expanded again.
\<close>

function regex_replace :: "(string \<Rightarrow> fault + string) \<Rightarrow> string \<Rightarrow> fault + string" where
  "regex_replace f [] = Inr []"
| "regex_replace f (c # cs) =
     (if c = CHR ''$'' then
        (case match_token cs of
           Some (g, r) \<Rightarrow>
             (case f g of
                Inl e \<Rightarrow> Inl e
              | Inr v \<Rightarrow> (case regex_replace f r of Inl e \<Rightarrow> Inl e | Inr out \<Rightarrow> Inr (v @ out)))
         | None \<Rightarrow> (case regex_replace f cs of Inl e \<Rightarrow> Inl e | Inr out \<Rightarrow> Inr (c # out)))
      else (case regex_replace f cs of Inl e \<Rightarrow> Inl e | Inr out \<Rightarrow> Inr (c # out)))"
  by pat_completeness auto
termination
  by (relation "measure (\<lambda>(f, s). length s)") (auto dest: match_token_length)

text \<open>
  Where a match can start.  \<^verbatim>\<open>never_closes cs\<close> says of the text \<^verbatim>\<open>cs\<close> after a dollar that
  no text put after it can complete a match from that dollar: the dollar is followed by a line
  terminator, or by one character and then text that reaches a line terminator before any
  dollar.
  \<^verbatim>\<open>at_token_boundary pre\<close> says that the scan of \<^verbatim>\<open>pre\<close> by \<^verbatim>\<open>regex_replace\<close> ends at the end
  of \<^verbatim>\<open>pre\<close> whatever follows: every match begun in \<^verbatim>\<open>pre\<close> ends in \<^verbatim>\<open>pre\<close>, and a dollar of
  \<^verbatim>\<open>pre\<close> that begins no match cannot begin one with the text that follows.
\<close>

fun dead_group :: "string \<Rightarrow> bool" where
  "dead_group [] = False"
| "dead_group (c # cs) =
     (if c = CHR ''$'' then False else if is_line_terminator c then True else dead_group cs)"

fun never_closes :: "string \<Rightarrow> bool" where
  "never_closes [] = False"
| "never_closes (c # cs) = (is_line_terminator c \<or> dead_group cs)"

function at_token_boundary :: "string \<Rightarrow> bool" where
  "at_token_boundary [] = True"
| "at_token_boundary (c # cs) =
     (if c = CHR ''$'' then
        (case match_token cs of
           Some (g, r) \<Rightarrow> at_token_boundary r
         | None \<Rightarrow> never_closes cs \<and> at_token_boundary cs)
      else at_token_boundary cs)"
  by pat_completeness auto
termination
  by (relation "measure length") (auto dest: match_token_length)

text \<open>\<^verbatim>\<open>qstring::rfind\<close> and \<^verbatim>\<open>resize\<close>: cut the string at its last dot, if it has one.\<close>

definition drop_extension :: "string \<Rightarrow> string" where
  "drop_extension s =
     (if CHR ''.'' \<in> set s then rev (tl (dropWhile (\<lambda>c. c \<noteq> CHR ''.'') (rev s))) else s)"

text \<open>The callback of \<^verbatim>\<open>expand_string\<close>, applied to the group of a match.\<close>

definition expand_match ::
  "host \<Rightarrow> active_script_info_t \<Rightarrow> expand_ctx_t \<Rightarrow> string \<Rightarrow> fault + string" where
  "expand_match h sel ctx match1 =
     (if take 10 match1 = ''pkgmodname'' then
        (let pkg = (case has_dep sel (ctx_script_file ctx) of
                      None \<Rightarrow> pkg_base sel
                    | Some dep_file \<Rightarrow> pkg_base dep_file)
         in if take (length pkg) (ctx_script_file ctx) = pkg then
              (if length (ctx_script_file ctx) < length pkg + 1 then Inl OutOfBounds
               else Inr (drop_extension
                      (map (\<lambda>c. if c = SDIRCHAR h then CHR ''.'' else c)
                         (drop (length pkg + 1) (ctx_script_file ctx)))))
            else Inr [])
      else if take 7 match1 = ''pkgbase'' then Inr (ctx_pkg_base ctx)
      else if take 8 match1 = ''basename'' then Inr (get_basename h (ctx_script_file ctx))
      else if take 4 match1 = ''env:'' then
        (case qgetenv h (drop 4 match1) of Some env \<Rightarrow> Inr env | None \<Rightarrow> Inr match1)
      else Inr match1)"

definition expand_string ::
  "host \<Rightarrow> active_script_info_t \<Rightarrow> expand_ctx_t \<Rightarrow> string \<Rightarrow> fault + string" where
  "expand_string h sel ctx input = regex_replace (expand_match h sel ctx) input"

definition expand_file_name ::
  "host \<Rightarrow> active_script_info_t \<Rightarrow> expand_ctx_t \<Rightarrow> string \<Rightarrow> fault + string" where
  "expand_file_name h sel ctx filename =
     (case expand_string h sel ctx filename of
        Inl e \<Rightarrow> Inl e
      | Inr s \<Rightarrow> Inr (make_abs_path h s (ctx_base_dir ctx)))"

subsection \<open>The manifest parser\<close>

text \<open>\<^verbatim>\<open>qstring::trim2\<close> of the SDK: blanks are removed from both ends.\<close>

definition trim2 :: "string \<Rightarrow> string" where
  "trim2 s = rev (dropWhile (\<lambda>c. c = CHR '' '') (rev (dropWhile (\<lambda>c. c = CHR '' '') s)))"

text \<open>
  The lambda \<^verbatim>\<open>get_value\<close>: \<^verbatim>\<open>strncmp(str, key, key_len) != 0\<close> on NUL-free strings compares
  the first \<^verbatim>\<open>key_len\<close> characters; the character after the key is skipped without being
  looked at.
\<close>

definition get_value :: "string \<Rightarrow> string \<Rightarrow> nat \<Rightarrow> string option" where
  "get_value str key key_len =
     (if take key_len str \<noteq> take key_len key then None
      else if length str = key_len then Some []
      else Some (drop (key_len + 1) str))"

text \<open>The two manifest names, tried in order with \<^verbatim>\<open>qfopen\<close>.\<close>

definition open_dep_file :: "filesys \<Rightarrow> string \<Rightarrow> (string \<times> string list) option" where
  "open_dep_file fs script_file =
     (case lines_of fs (script_file @ ''.deps.qscripts'') of
        Some ls \<Rightarrow> Some (script_file @ ''.deps.qscripts'', ls)
      | None \<Rightarrow>
          (case lines_of fs (script_file @ ''.proj.qscripts'') of
             Some ls \<Rightarrow> Some (script_file @ ''.proj.qscripts'', ls)
           | None \<Rightarrow> None))"

text \<open>
  The body of the line loop of \<^verbatim>\<open>parse_deps_for_script\<close> (lines 294 to 351).  \<^verbatim>\<open>rec\<close> is the
  recursive call of the parser on the dependency just recorded; its boolean result is dropped
  as in the source.  The context is the caller's \<^verbatim>\<open>ctx\<close>, changed in place from line to line.
  The result is the context, the active script and the probes made.
\<close>

definition parse_line ::
  "host \<Rightarrow> filesys \<Rightarrow>
   (expand_ctx_t \<Rightarrow> active_script_info_t \<Rightarrow> fault + (bool \<times> active_script_info_t \<times> event list)) \<Rightarrow>
   string \<Rightarrow> expand_ctx_t \<Rightarrow> active_script_info_t \<Rightarrow>
   fault + (expand_ctx_t \<times> active_script_info_t \<times> event list)" where
  "parse_line h fs rec raw ctx sel =
     (let line = trim2 raw in
      if line = [] \<or> take 2 line = ''//'' \<or> hd line = CHR ''#'' \<or> hd line = CHR '';'' then
        Inr (ctx, sel, [])
      else
        (case get_value line ''/pkgbase'' 8 of
           Some val \<Rightarrow>
             Inr (if ctx_main_file ctx
                  then ctx\<lparr>ctx_pkg_base := make_abs_path h val (ctx_base_dir ctx)\<rparr>
                  else ctx, sel, [])
         | None \<Rightarrow>
        (case get_value line ''/reload'' 7 of
           Some val \<Rightarrow>
             Inr (if ctx_main_file ctx then ctx\<lparr>ctx_reload_cmd := val\<rparr> else ctx, sel, [])
         | None \<Rightarrow>
        (case get_value line ''/triggerfile'' 12 of
           Some trigger_file0 \<Rightarrow>
             (let (trigger_file1, sel1) =
                    (case get_value trigger_file0 ''/keep'' 5 of
                       Some keep \<Rightarrow> (keep, sel\<lparr>b_keep_trigger_file := True\<rparr>)
                     | None \<Rightarrow> (trigger_file0, sel))
              in if ctx_main_file ctx then
                   (let tf = snd (refresh fs (Some trigger_file1) (trigger_file sel1));
                        sel2 = sel1\<lparr>trigger_file := tf\<rparr>
                    in case expand_file_name h sel2 ctx (file_path tf) of
                         Inl e \<Rightarrow> Inl e
                       | Inr p \<Rightarrow> Inr (ctx, sel2\<lparr>trigger_file := tf\<lparr>file_path := p\<rparr>\<rparr>, []))
                 else Inr (ctx, sel1, []))
         | None \<Rightarrow>
             (let ctx1 = ctx\<lparr>ctx_script_file := line\<rparr> in
              case expand_file_name h sel ctx1 line of
                Inl e \<Rightarrow> Inl e
              | Inr line' \<Rightarrow>
                  (case get_file_modification_time fs line' of
                     None \<Rightarrow> Inr (ctx1, sel, [DepProbe line line' False])
                   | Some t \<Rightarrow>
                       (let dep_script = \<lparr>file_path = line', modified_time = t,
                                           reload_cmd = ctx_reload_cmd ctx1,
                                           pkg_base = ctx_pkg_base ctx1\<rparr>;
                            sel1 = sel\<lparr>dep_scripts := AList.update line' dep_script (dep_scripts sel)\<rparr>;
                            sub_ctx = ctx1\<lparr>ctx_script_file := line', ctx_main_file := False\<rparr>
                        in case rec sub_ctx sel1 of
                             Inl e \<Rightarrow> Inl e
                           | Inr (b, sel2, evs) \<Rightarrow>
                               Inr (ctx1, sel2, DepProbe line line' True # evs))))))))"

primrec parse_lines ::
  "(string \<Rightarrow> expand_ctx_t \<Rightarrow> active_script_info_t \<Rightarrow>
      fault + (expand_ctx_t \<times> active_script_info_t \<times> event list)) \<Rightarrow>
   string list \<Rightarrow> expand_ctx_t \<Rightarrow> active_script_info_t \<Rightarrow>
   fault + (expand_ctx_t \<times> active_script_info_t \<times> event list)" where
  "parse_lines step [] ctx sel = Inr (ctx, sel, [])"
| "parse_lines step (raw # rest) ctx sel =
     (case step raw ctx sel of
        Inl e \<Rightarrow> Inl e
      | Inr (ctx', sel', evs) \<Rightarrow>
          (case parse_lines step rest ctx' sel' of
             Inl e \<Rightarrow> Inl e
           | Inr (ctx'', sel'', evs') \<Rightarrow> Inr (ctx'', sel'', evs @ evs')))"

text \<open>
  \<^verbatim>\<open>parse_deps_for_script\<close>.  Each call keeps its manifest open (\<^verbatim>\<open>qfopen\<close>, line 263) until
  its line loop is over (\<^verbatim>\<open>qfclose\<close>, line 353), the recursive calls included.  The first
  argument is the number of files the process can still open: with none left both \<^verbatim>\<open>qfopen\<close>
  calls fail and the parser returns \<^verbatim>\<open>false\<close>, so that even a manifest that reaches itself is
  left after as many levels as there were files to open.
\<close>

primrec parse_deps_for_script ::
  "nat \<Rightarrow> host \<Rightarrow> filesys \<Rightarrow> expand_ctx_t \<Rightarrow> active_script_info_t \<Rightarrow>
   fault + (bool \<times> active_script_info_t \<times> event list)" where
  "parse_deps_for_script 0 h fs ctx sel = Inr (False, sel, [])"
| "parse_deps_for_script (Suc n) h fs ctx sel =
     (case open_dep_file fs (ctx_script_file ctx) of
        None \<Rightarrow> Inr (False, sel, [])
      | Some (dep_file, ls) \<Rightarrow>
          (let ctx1 = ctx\<lparr>ctx_base_dir := qdirname h dep_file\<rparr>;
               sel1 = snd (add_dep_index fs dep_file sel)
           in case parse_lines (parse_line h fs (parse_deps_for_script n h fs)) ls ctx1 sel1 of
                Inl e \<Rightarrow> Inl e
              | Inr (ctx2, sel2, evs) \<Rightarrow> Inr (True, sel2, evs)))"

text \<open>\<^verbatim>\<open>set_selected_script\<close>: the result is the active script and the probes of the parser.\<close>

definition set_selected_script ::
  "nat \<Rightarrow> host \<Rightarrow> filesys \<Rightarrow> 'a script_info_t_scheme \<Rightarrow> active_script_info_t \<Rightarrow>
   fault + (active_script_info_t \<times> event list)" where
  "set_selected_script n h fs script sel =
     (let sel1 = assign_script script sel;
          main_ctx = \<lparr>ctx_script_file = file_path script, ctx_main_file = True,
                      ctx_base_dir = [], ctx_pkg_base = [], ctx_reload_cmd = []\<rparr>
      in case parse_deps_for_script n h fs main_ctx sel1 of
           Inl e \<Rightarrow> Inl e
         | Inr (b, sel2, evs) \<Rightarrow> Inr (sel2, evs))"

subsection \<open>The chooser: options, executor and monitor\<close>

record qscripts_chooser_t =
  m_b_filemon_timer_active :: bool
  opt_change_interval :: int
  opt_clear_log :: int
  opt_show_filename :: int
  opt_exec_unload_func :: int
  opt_with_undo :: int
  selected_script :: active_script_info_t

definition UNLOAD_SCRIPT_FUNC_NAME :: string where
  "UNLOAD_SCRIPT_FUNC_NAME = ''__quick_unload_script''"

definition ACTION_EXECUTE_SCRIPT_WITH_UNDO_ID :: string where
  "ACTION_EXECUTE_SCRIPT_WITH_UNDO_ID = ''qscripts:execscriptwithundo''"

definition has_selected_script :: "qscripts_chooser_t \<Rightarrow> bool" where
  "has_selected_script st = (file_path (selected_script st) \<noteq> [])"

definition is_monitor_active :: "qscripts_chooser_t \<Rightarrow> bool" where
  "is_monitor_active st = m_b_filemon_timer_active st"

definition activate_monitor :: "bool \<Rightarrow> qscripts_chooser_t \<Rightarrow> bool \<times> qscripts_chooser_t" where
  "activate_monitor activate st =
     (m_b_filemon_timer_active st, st\<lparr>m_b_filemon_timer_active := activate\<rparr>)"

definition clear_selected_script :: "qscripts_chooser_t \<Rightarrow> qscripts_chooser_t" where
  "clear_selected_script st =
     snd (activate_monitor False (st\<lparr>selected_script := clear_active (selected_script st)\<rparr>))"

definition qunlink :: "string \<Rightarrow> filesys \<Rightarrow> filesys" where
  "qunlink p fs = fs\<lparr>mtime_of := (mtime_of fs)(p := None), lines_of := (lines_of fs)(p := None)\<rparr>"

text \<open>
  \<^verbatim>\<open>execute_reload_directive\<close> with \<^verbatim>\<open>silent = true\<close>.  The context is built on the stack with
  only the script file set (its \<^verbatim>\<open>main_file\<close> is not initialised and not read).
\<close>

definition execute_reload_directive ::
  "host \<Rightarrow> active_script_info_t \<Rightarrow> 'a script_info_t_scheme \<Rightarrow> fault + (bool \<times> event list)" where
  "execute_reload_directive h sel dep_script_file =
     (let script_file = file_path dep_script_file in
      case find_extlang_by_ext h (case get_file_ext h script_file of None \<Rightarrow> [] | Some ext \<Rightarrow> ext) of
        None \<Rightarrow> Inr (False, [])
      | Some elang \<Rightarrow>
          (let ctx = \<lparr>ctx_script_file = script_file, ctx_main_file = False,
                      ctx_base_dir = [], ctx_pkg_base = [], ctx_reload_cmd = []\<rparr>
           in case expand_string h sel ctx (reload_cmd dep_script_file) of
                Inl e \<Rightarrow> Inl e
              | Inr cmd \<Rightarrow> Inr (eval_snippet elang cmd, [EvalSnippet script_file cmd (eval_snippet elang cmd)])))"

text \<open>
  \<^verbatim>\<open>execute_script_sync\<close>: the monitor is paused around the body and put back to its former
  state.  The script is passed by pointer in the source; the model returns it.
\<close>

definition execute_script_sync ::
  "host \<Rightarrow> filesys \<Rightarrow> qscripts_chooser_t \<Rightarrow> 'a script_info_t_scheme \<Rightarrow>
   bool \<times> 'a script_info_t_scheme \<times> qscripts_chooser_t \<times> event list" where
  "execute_script_sync h fs st script_info =
     (let (old_state, st1) = activate_monitor False st;
          script_file = file_path script_info;
          (exec_ok, script_info', evs) =
            (case get_file_modification_time fs script_file of
               None \<Rightarrow> (False, script_info, [Msg ScriptNotFound script_file])
             | Some t \<Rightarrow>
                 (let script1 = script_info\<lparr>modified_time := t\<rparr> in
                  case (case get_file_ext h script_file of
                          None \<Rightarrow> None
                        | Some script_ext \<Rightarrow> find_extlang_by_ext h script_ext) of
                    None \<Rightarrow> (False, script1, [Msg UnknownLanguage script_file])
                  | Some elang \<Rightarrow>
                      (let ev1 = (if opt_clear_log st \<noteq> 0 then [MsgClear] else [])
                               @ (if opt_exec_unload_func st \<noteq> 0
                                  then [CallFunc script_file UNLOAD_SCRIPT_FUNC_NAME
                                          (call_func elang UNLOAD_SCRIPT_FUNC_NAME)]
                                  else [])
                               @ (if opt_show_filename st \<noteq> 0 then [Msg Executing script_file] else [])
                       in if \<not> compile_file elang script_file then
                            (False, script1,
                             ev1 @ [CompileFile script_file False, Msg CompileFailed script_file])
                          else if is_idc elang then
                            (if call_func elang ''main'' then
                               (True, script1,
                                ev1 @ [CompileFile script_file True, CallFunc script_file ''main'' True])
                             else
                               (False, script1,
                                ev1 @ [CompileFile script_file True, CallFunc script_file ''main'' False,
                                       Msg MainFailed script_file]))
                          else (True, script1, ev1 @ [CompileFile script_file True]))))
      in (exec_ok, script_info', snd (activate_monitor old_state st1), evs))"

text \<open>
  \<^verbatim>\<open>execute_script\<close>: with undo, the host is asked to run the action (the host calls back on
  its own account); otherwise the script runs synchronously.
\<close>

definition execute_script ::
  "host \<Rightarrow> filesys \<Rightarrow> qscripts_chooser_t \<Rightarrow> 'a script_info_t_scheme \<Rightarrow> bool \<Rightarrow>
   bool \<times> 'a script_info_t_scheme \<times> qscripts_chooser_t \<times> event list" where
  "execute_script h fs st script_info with_undo =
     (if with_undo then
        (process_ui_action h ACTION_EXECUTE_SCRIPT_WITH_UNDO_ID, script_info, st,
         [ProcessUiAction ACTION_EXECUTE_SCRIPT_WITH_UNDO_ID
            (process_ui_action h ACTION_EXECUTE_SCRIPT_WITH_UNDO_ID)])
      else execute_script_sync h fs st script_info)"

text \<open>
  Three kinds of events: the steps of the executor on a script (compiling it, calling one of
  its functions, asking the host to run it as an undoable action), the failure of a reload
  directive (a snippet whose evaluation fails, and the warning of line 696), and the probes of
  the parser.
\<close>

fun is_execution :: "event \<Rightarrow> bool" where
  "is_execution (CompileFile p ok) = True"
| "is_execution (CallFunc p f ok) = True"
| "is_execution (ProcessUiAction a ok) = True"
| "is_execution e = False"

fun is_reload_failure :: "event \<Rightarrow> bool" where
  "is_reload_failure (EvalSnippet p cmd ok) = (\<not> ok)"
| "is_reload_failure (Msg m p) = (m = ReloadWarning)"
| "is_reload_failure e = False"

fun is_probe :: "event \<Rightarrow> bool" where
  "is_probe (DepProbe line p found) = True"
| "is_probe e = False"

text \<open>
  The loop over \<^verbatim>\<open>dep_scripts\<close> of the timer callback (lines 684 to 701).  The entries already
  visited are \<^verbatim>\<open>done\<close>; each entry is changed in place before its reload command is
  expanded against the map.  The result is the map, \<^verbatim>\<open>dep_script_changed\<close>, \<^verbatim>\<open>brk\<close> and the
  events.
\<close>

fun check_dep_scripts ::
  "host \<Rightarrow> filesys \<Rightarrow> active_script_info_t \<Rightarrow> (string \<times> script_info_t) list \<Rightarrow>
   (string \<times> script_info_t) list \<Rightarrow>
   fault + ((string \<times> script_info_t) list \<times> bool \<times> bool \<times> event list)" where
  "check_dep_scripts h fs sel done [] = Inr (done, False, False, [])"
| "check_dep_scripts h fs sel done ((k, dep_script) # rest) =
     (let (status, dep_script') = get_modification_status fs True dep_script in
      if status = modified then
        (case (if has_reload_directive dep_script'
               then execute_reload_directive h
                      (sel\<lparr>dep_scripts := done @ (k, dep_script') # rest\<rparr>) dep_script'
               else Inr (True, [])) of
           Inl e \<Rightarrow> Inl e
         | Inr (ok, evs) \<Rightarrow>
             if \<not> ok then
               Inr (done @ (k, dep_script') # rest, True, True,
                    evs @ [Msg ReloadWarning (file_path dep_script')])
             else
               (case check_dep_scripts h fs sel (done @ [(k, dep_script')]) rest of
                  Inl e \<Rightarrow> Inl e
                | Inr (deps', changed, brk, evs') \<Rightarrow> Inr (deps', True, brk, evs @ evs')))
      else check_dep_scripts h fs sel (done @ [(k, dep_script')]) rest)"

text \<open>
  The timer callback, in the two blocks of the source.  First the trigger file (lines 635 to
  649): the result says whether the callback goes on.
\<close>

definition filemon_trigger_stage ::
  "filesys \<Rightarrow> qscripts_chooser_t \<Rightarrow> bool \<times> qscripts_chooser_t \<times> filesys \<times> event list" where
  "filemon_trigger_stage fs st =
     (let sel = selected_script st in
      if trigger_based sel then
        (let (trigger_status, tf) = get_modification_status fs True (trigger_file sel);
             sel1 = sel\<lparr>trigger_file := tf\<rparr>
         in if trigger_status \<noteq> modified then (False, st\<lparr>selected_script := sel1\<rparr>, fs, [])
            else if \<not> b_keep_trigger_file sel1 then
              (True, st\<lparr>selected_script := invalidate sel1\<rparr>, qunlink (file_path tf) fs,
               [Unlink (file_path tf)])
            else (True, st\<lparr>selected_script := invalidate sel1\<rparr>, fs, []))
      else (True, st, fs, []))"

text \<open>
  Then the manifests, the dependencies and the main script (lines 655 to 716).  The first
  argument is passed on to the parser.  The result is the chooser, the delay to the next tick
  in milliseconds and the events.
\<close>

definition filemon_check_stage ::
  "nat \<Rightarrow> host \<Rightarrow> filesys \<Rightarrow> qscripts_chooser_t \<Rightarrow>
   fault + (qscripts_chooser_t \<times> int \<times> event list)" where
  "filemon_check_stage n h fs st =
     (let (mod_stat, sel1) = is_any_dep_index_modified fs True (selected_script st) in
      if mod_stat = modified then
        (let sel2 = sel1\<lparr>dep_scripts := []\<rparr> in
         case set_selected_script n h fs sel2 sel2 of
           Inl e \<Rightarrow> Inl e
         | Inr (sel3, evs) \<Rightarrow>
             Inr (st\<lparr>selected_script := invalidate_all_scripts sel3\<rparr>, 1,
                  evs @ [RefreshChooser]))
      else
        (let sel2 = (if mod_stat = not_found \<and> dep_scripts sel1 \<noteq> []
                     then sel1\<lparr>dep_scripts := []\<rparr> else sel1)
         in case check_dep_scripts h fs sel2 [] (dep_scripts sel2) of
              Inl e \<Rightarrow> Inl e
            | Inr (deps', dep_script_changed, brk, evs) \<Rightarrow>
                (let sel3 = sel2\<lparr>dep_scripts := deps'\<rparr> in
                 if brk then Inr (st\<lparr>selected_script := sel3\<rparr>, opt_change_interval st, evs)
                 else
                   (let (mod_stat', sel4) = get_modification_status fs True sel3 in
                    if mod_stat' = not_found then
                      Inr (clear_selected_script (st\<lparr>selected_script := sel4\<rparr>),
                           opt_change_interval st,
                           evs @ [Msg NoLongerExists (file_path sel4)])
                    else if dep_script_changed \<or> mod_stat' = modified then
                      (let (ok, sel5, st', evs') =
                             execute_script h fs (st\<lparr>selected_script := sel4\<rparr>) sel4
                               (opt_with_undo st \<noteq> 0)
                       in Inr (st'\<lparr>selected_script := sel5\<rparr>, opt_change_interval st, evs @ evs'))
                    else Inr (st\<lparr>selected_script := sel4\<rparr>, opt_change_interval st, evs)))))"

definition filemon_timer_cb ::
  "nat \<Rightarrow> host \<Rightarrow> filesys \<Rightarrow> qscripts_chooser_t \<Rightarrow>
   fault + (qscripts_chooser_t \<times> filesys \<times> int \<times> event list)" where
  "filemon_timer_cb n h fs st =
     (if \<not> is_monitor_active st \<or> \<not> has_selected_script st then
        Inr (st, fs, opt_change_interval st, [])
      else
        (let (go, st1, fs1, ev1) = filemon_trigger_stage fs st in
         if \<not> go then Inr (st1, fs1, opt_change_interval st, ev1)
         else
           (case filemon_check_stage n h fs1 st1 of
              Inl e \<Rightarrow> Inl e
            | Inr (st2, delay, ev2) \<Rightarrow> Inr (st2, fs1, delay, ev1 @ ev2))))"

subsection \<open>A POSIX host for the examples\<close>

text \<open>
  Modelled from the spec: \<^verbatim>\<open>make_abs_path\<close> and \<^verbatim>\<open>get_basename_and_ext\<close> (utils_impl.cpp) are
  not among the sources; the spec has a resolver that makes a possibly relative path absolute
  against a base directory and extracts basename and extension.  These are concrete helpers
  for the closed examples below only: absolute paths start with a slash, a relative path is
  put under the base directory, nothing is normalised; no environment variable is set; the
  only script language is \<^verbatim>\<open>py\<close>, whose snippets fail and whose files compile.
\<close>

definition posix_abs :: "string \<Rightarrow> string \<Rightarrow> string" where
  "posix_abs p base = (if p \<noteq> [] \<and> hd p = CHR ''/'' then p else base @ ''/'' @ p)"

definition posix_dirname :: "string \<Rightarrow> string" where
  "posix_dirname p = rev (tl (dropWhile (\<lambda>c. c \<noteq> CHR ''/'') (rev p)))"

definition posix_filename :: "string \<Rightarrow> string" where
  "posix_filename p = rev (takeWhile (\<lambda>c. c \<noteq> CHR ''/'') (rev p))"

definition posix_ext :: "string \<Rightarrow> string option" where
  "posix_ext p =
     (if CHR ''.'' \<in> set (posix_filename p)
      then Some (rev (takeWhile (\<lambda>c. c \<noteq> CHR ''.'') (rev (posix_filename p))))
      else None)"

definition py :: extlang_t where
  "py = \<lparr>eval_snippet = (\<lambda>s. False), compile_file = (\<lambda>s. True),
          call_func = (\<lambda>s. True), is_idc = False\<rparr>"

definition posix_host :: host where
  "posix_host =
     \<lparr>make_abs_path = posix_abs, qdirname = posix_dirname,
      get_basename = (\<lambda>p. drop_extension (posix_filename p)), get_file_ext = posix_ext,
      qgetenv = (\<lambda>n. None), find_extlang_by_ext = (\<lambda>e. if e = ''py'' then Some py else None),
      process_ui_action = (\<lambda>a. True), SDIRCHAR = CHR ''/''\<rparr>"

text \<open>The active script after \<^verbatim>\<open>clear()\<close>, a top-level context for \<^verbatim>\<open>/t/a.py\<close>, an empty disk.\<close>

definition sel0 :: active_script_info_t where
  "sel0 = \<lparr>file_path = [], modified_time = 0, reload_cmd = [], pkg_base = [],
           trigger_file = empty_fileinfo, b_keep_trigger_file = False,
           dep_indices = [], dep_scripts = []\<rparr>"

definition ctx_a :: expand_ctx_t where
  "ctx_a = \<lparr>ctx_script_file = ''/t/a.py'', ctx_main_file = True, ctx_base_dir = ''/t'',
            ctx_pkg_base = [], ctx_reload_cmd = []\<rparr>"

definition fs_empty :: filesys where
  "fs_empty = \<lparr>mtime_of = Map.empty, lines_of = Map.empty\<rparr>"

text \<open>
  The script \<^verbatim>\<open>/t/a.py\<close> as the chooser lists it, and three disks: a manifest with a
  \<^verbatim>\<open>/pkgbase\<close> directive and one dependency; a manifest with a trigger file and a dependency
  whose own manifest has a \<^verbatim>\<open>/triggerfile /keep\<close> line; a manifest whose trigger file is given
  by a relative path that the process can reach from its working directory.
\<close>

definition scr_a :: script_info_t where
  "scr_a = \<lparr>file_path = ''/t/a.py'', modified_time = 1, reload_cmd = [], pkg_base = []\<rparr>"

definition fs_pkg :: filesys where
  "fs_pkg =
     \<lparr>mtime_of = [''/t/a.py'' \<mapsto> 1, ''/t/lib.py'' \<mapsto> 2, ''/t/a.py.deps.qscripts'' \<mapsto> 3],
      lines_of = [''/t/a.py.deps.qscripts'' \<mapsto> [''/pkgbase pkg'', ''lib.py'']]\<rparr>"

definition fs_keep :: filesys where
  "fs_keep =
     \<lparr>mtime_of = [''/t/a.py'' \<mapsto> 1, ''/t/lib.py'' \<mapsto> 2, ''/t/a.py.deps.qscripts'' \<mapsto> 3,
                  ''/t/lib.py.deps.qscripts'' \<mapsto> 4],
      lines_of = [''/t/a.py.deps.qscripts'' \<mapsto> [''/triggerfile /t/go'', ''lib.py''],
                  ''/t/lib.py.deps.qscripts'' \<mapsto> [''/triggerfile /keep /t/other'']]\<rparr>"


text \<open>
  A monitored chooser: \<^verbatim>\<open>/t/a.py\<close> is active with the dependency \<^verbatim>\<open>/t/lib.py\<close>, recorded
  at time 2 with the reload command \<^verbatim>\<open>reload($basename$)\<close>; the manifest was read at time 3.
  On \<^verbatim>\<open>fs_reload\<close> the dependency has changed (time 5); on \<^verbatim>\<open>fs_reload_main\<close> the main
  script has changed as well (time 9); on \<^verbatim>\<open>fs_manifest\<close> the manifest has changed (time 4)
  and lists \<^verbatim>\<open>lib2.py\<close> too.  \<^verbatim>\<open>st_reload1\<close>, \<^verbatim>\<open>st_reload2\<close> and \<^verbatim>\<open>st_manifest\<close> are the
  choosers the ticks below end in.
\<close>

definition lib_py :: "qtime64_t \<Rightarrow> script_info_t" where
  "lib_py t = \<lparr>file_path = ''/t/lib.py'', modified_time = t,
               reload_cmd = ''reload($basename$)'', pkg_base = []\<rparr>"

definition lib2_py :: "qtime64_t \<Rightarrow> script_info_t" where
  "lib2_py t = \<lparr>file_path = ''/t/lib2.py'', modified_time = t,
                reload_cmd = ''reload($basename$)'', pkg_base = []\<rparr>"

definition sel_reload :: "qtime64_t \<Rightarrow> qtime64_t \<Rightarrow> active_script_info_t" where
  "sel_reload t_main t_lib =
     \<lparr>file_path = ''/t/a.py'', modified_time = t_main, reload_cmd = [], pkg_base = [],
      trigger_file = empty_fileinfo, b_keep_trigger_file = False,
      dep_indices = [\<lparr>file_path = ''/t/a.py.deps.qscripts'', modified_time = 3\<rparr>],
      dep_scripts = [(''/t/lib.py'', lib_py t_lib)]\<rparr>"

definition chooser_of :: "active_script_info_t \<Rightarrow> qscripts_chooser_t" where
  "chooser_of sel =
     \<lparr>m_b_filemon_timer_active = True, opt_change_interval = 500, opt_clear_log = 0,
      opt_show_filename = 0, opt_exec_unload_func = 0, opt_with_undo = 0,
      selected_script = sel\<rparr>"

definition st_reload :: qscripts_chooser_t where
  "st_reload = chooser_of (sel_reload 1 2)"

definition st_reload1 :: qscripts_chooser_t where
  "st_reload1 = chooser_of (sel_reload 1 5)"

definition st_reload2 :: qscripts_chooser_t where
  "st_reload2 = chooser_of (sel_reload 9 5)"

definition st_manifest :: qscripts_chooser_t where
  "st_manifest =
     chooser_of
       \<lparr>file_path = ''/t/a.py'', modified_time = 0, reload_cmd = [], pkg_base = [],
        trigger_file = empty_fileinfo, b_keep_trigger_file = False,
        dep_indices = [\<lparr>file_path = ''/t/a.py.deps.qscripts'', modified_time = 4\<rparr>],
        dep_scripts = [(''/t/lib.py'', lib_py 0), (''/t/lib2.py'', lib2_py 0)]\<rparr>"

definition fs_reload :: filesys where
  "fs_reload =
     \<lparr>mtime_of = [''/t/a.py'' \<mapsto> 1, ''/t/lib.py'' \<mapsto> 5, ''/t/a.py.deps.qscripts'' \<mapsto> 3],
      lines_of = [''/t/a.py.deps.qscripts'' \<mapsto> [''/reload reload($basename$)'', ''lib.py'']]\<rparr>"

definition fs_reload_main :: filesys where
  "fs_reload_main =
     \<lparr>mtime_of = [''/t/a.py'' \<mapsto> 9, ''/t/lib.py'' \<mapsto> 5, ''/t/a.py.deps.qscripts'' \<mapsto> 3],
      lines_of = [''/t/a.py.deps.qscripts'' \<mapsto> [''/reload reload($basename$)'', ''lib.py'']]\<rparr>"

definition fs_manifest :: filesys where
  "fs_manifest =
     \<lparr>mtime_of = [''/t/a.py'' \<mapsto> 1, ''/t/lib.py'' \<mapsto> 2, ''/t/lib2.py'' \<mapsto> 6,
                  ''/t/a.py.deps.qscripts'' \<mapsto> 4],
      lines_of = [''/t/a.py.deps.qscripts'' \<mapsto>
                    [''/reload reload($basename$)'', ''lib.py'', ''lib2.py'']]\<rparr>"

text \<open>What a tick leaves apart from the disk: the chooser, the delay and the events.\<close>

definition tick_outcome ::
  "fault + (qscripts_chooser_t \<times> filesys \<times> int \<times> event list) \<Rightarrow>
   fault + (qscripts_chooser_t \<times> int \<times> event list)" where
  "tick_outcome r =
     (case r of Inl e \<Rightarrow> Inl e | Inr (st, fs, delay, evs) \<Rightarrow> Inr (st, delay, evs))"

subsection \<open>Sequences of selections and ticks\<close>

text \<open>
  The chooser is driven by the user, who selects a script (\<^verbatim>\<open>set_selected_script\<close>), and by the
  timer (\<^verbatim>\<open>filemon_timer_cb\<close>, which re-parses the manifests when one has changed, and
  refreshes the chooser just then, line 669).  Each step sees the disk as it is then.
  \<^verbatim>\<open>run_actions\<close> returns the chooser together with the events of the most recent parse;
  \<^verbatim>\<open>recorded_paths\<close> are the paths that the dependency lines of a parse were resolved to and
  that were found; \<^verbatim>\<open>dep_keys\<close> are the keys of the dependency map.
\<close>

datatype action = SetActive script_info_t | Tick

fun run_actions ::
  "nat \<Rightarrow> host \<Rightarrow> (action \<times> filesys) list \<Rightarrow> qscripts_chooser_t \<Rightarrow> event list \<Rightarrow>
   fault + (qscripts_chooser_t \<times> event list)" where
  "run_actions n h [] st log = Inr (st, log)"
| "run_actions n h ((SetActive script, fs) # rest) st log =
     (case set_selected_script n h fs script (selected_script st) of
        Inl e \<Rightarrow> Inl e
      | Inr (sel, evs) \<Rightarrow> run_actions n h rest (st\<lparr>selected_script := sel\<rparr>) evs)"
| "run_actions n h ((Tick, fs) # rest) st log =
     (case filemon_timer_cb n h fs st of
        Inl e \<Rightarrow> Inl e
      | Inr (st', fs', delay, evs) \<Rightarrow>
          run_actions n h rest st' (if RefreshChooser \<in> set evs then evs else log))"

fun recorded_paths :: "event list \<Rightarrow> string list" where
  "recorded_paths [] = []"
| "recorded_paths (DepProbe line p found # evs) =
     (if found then p # recorded_paths evs else recorded_paths evs)"
| "recorded_paths (e # evs) = recorded_paths evs"

definition dep_keys :: "active_script_info_t \<Rightarrow> string set" where
  "dep_keys sel = fst ` set (dep_scripts sel)"

text \<open>
  One more disk: on \<^verbatim>\<open>fs_loop\<close> the manifest of \<^verbatim>\<open>/t/a.py\<close> names \<^verbatim>\<open>a.py\<close>.  \<^verbatim>\<open>sel_loop\<close> is
  the active script after \<^verbatim>\<open>/t/a.py\<close> has been selected there by a process that can open
  three more files.
\<close>

definition fs_loop :: filesys where
  "fs_loop =
     \<lparr>mtime_of = [''/t/a.py'' \<mapsto> 1, ''/t/a.py.deps.qscripts'' \<mapsto> 3],
      lines_of = [''/t/a.py.deps.qscripts'' \<mapsto> [''a.py'']]\<rparr>"

definition sel_loop :: active_script_info_t where
  "sel_loop =
     \<lparr>file_path = ''/t/a.py'', modified_time = 1, reload_cmd = [], pkg_base = [],
      trigger_file = empty_fileinfo, b_keep_trigger_file = False,
      dep_indices = [\<lparr>file_path = ''/t/a.py.deps.qscripts'', modified_time = 3\<rparr>,
                     \<lparr>file_path = ''/t/a.py.deps.qscripts'', modified_time = 3\<rparr>,
                     \<lparr>file_path = ''/t/a.py.deps.qscripts'', modified_time = 3\<rparr>],
      dep_scripts = [(''/t/a.py'', \<lparr>file_path = ''/t/a.py'', modified_time = 1, reload_cmd = [],
                                    pkg_base = []\<rparr>)]\<rparr>"

section \<open>Properties\<close>

subsection \<open>Directive prefixes\<close>

text \<open>
  C5, counterexample.  The line \<^verbatim>\<open>/reloaded\<close> has the prefix \<^verbatim>\<open>/reload\<close> followed by the letter
  \<^verbatim>\<open>e\<close>, neither the end of the line nor a space; it is still taken as the \<^verbatim>\<open>/reload\<close>
  directive, with the value \<^verbatim>\<open>d\<close>, and the top-level parser stores that value as the reload
  command.
\<close>

theorem get_value_ignores_separator:
  "get_value ''/reloaded'' ''/reload'' 7 = Some ''d''
   \<and> parse_line posix_host fs_empty (parse_deps_for_script 0 posix_host fs_empty)
        ''/reloaded'' ctx_a sel0
      = Inr (ctx_a\<lparr>ctx_reload_cmd := ''d''\<rparr>, sel0, [])"
  by (simp add: get_value_def parse_line_def trim2_def ctx_a_def)

text \<open>
  C5, amended.  A directive is recognised exactly when the line starts with its prefix.  The
  value is what follows the one character after the prefix, whatever that character is (the
  empty string when the prefix ends the line); a line that does not start with the prefix is
  not that directive.
\<close>

theorem get_value_skips_one_character:
  "get_value (key @ rest) key (length key) = Some (drop 1 rest)
   \<and> (take (length key) line \<noteq> key \<longrightarrow> get_value line key (length key) = None)"
  by (cases rest) (simp_all add: get_value_def)

theorem get_value_skips_one_character_witness:
  "get_value ''/pkgbaseX/foo'' ''/pkgbase'' 8 = Some ''/foo''
   \<and> get_value ''/pkgbase /foo'' ''/pkgbase'' 8 = Some ''/foo''
   \<and> get_value ''/pkgbase'' ''/pkgbase'' 8 = Some []
   \<and> take 8 ''/reload x'' \<noteq> ''/pkgbase''
   \<and> get_value ''/reload x'' ''/pkgbase'' 8 = None"
  using get_value_skips_one_character [of "''/pkgbase''" "''X/foo''" "''/reload x''"]
    get_value_skips_one_character [of "''/pkgbase''" "'' /foo''" "''/reload x''"]
    get_value_skips_one_character [of "''/pkgbase''" "[]" "''/reload x''"]
  by (simp add: eval_nat_numeral)

subsection \<open>Expansion\<close>

lemma regex_replace_no_dollar: "CHR ''$'' \<notin> set s \<Longrightarrow> regex_replace f s = Inr s"
  by (induction s) auto

lemma scan_close_plain:
  "CHR ''$'' \<notin> set name \<Longrightarrow> \<forall>c\<in>set name. \<not> is_line_terminator c \<Longrightarrow>
   scan_close (name @ CHR ''$'' # post) = Some (name, post)"
  by (induction name) auto

lemma scan_close_append:
  "scan_close cs = Some (g, r) \<Longrightarrow> scan_close (cs @ s) = Some (g, r @ s)"
  by (induction cs arbitrary: g) (auto split: if_splits option.splits)

lemma match_token_append:
  "match_token cs = Some (g, r) \<Longrightarrow> match_token (cs @ s) = Some (g, r @ s)"
  by (cases cs) (auto simp: scan_close_append split: if_splits option.splits)

lemma dead_group_append: "dead_group cs \<Longrightarrow> scan_close (cs @ s) = None"
  by (induction cs) (auto split: if_splits)

lemma never_closes_append: "never_closes cs \<Longrightarrow> match_token (cs @ s) = None"
  by (cases cs) (auto simp: dead_group_append)

text \<open>At a token boundary the expansion of a text is the expansion of its two parts.\<close>

lemma regex_replace_at_boundary:
  "at_token_boundary pre \<Longrightarrow>
   regex_replace f (pre @ s) =
     (case regex_replace f pre of
        Inl e \<Rightarrow> Inl e
      | Inr a \<Rightarrow> (case regex_replace f s of Inl e \<Rightarrow> Inl e | Inr b \<Rightarrow> Inr (a @ b)))"
proof (induction pre rule: at_token_boundary.induct)
  case 1
  then show ?case by (simp split: sum.splits)
next
  case (2 c cs)
  show ?case
  proof (cases "c = CHR ''$''")
    case False
    then show ?thesis using "2.IH"(3) "2.prems" by (simp split: sum.splits)
  next
    case True
    show ?thesis
    proof (cases "match_token cs")
      case None
      then have "match_token (cs @ s) = None"
        using "2.prems" True never_closes_append by simp
      then show ?thesis
        using "2.IH"(1) [OF True None] "2.prems" True None by (simp split: sum.splits)
    next
      case (Some gr)
      obtain g r where gr: "gr = (g, r)" by (cases gr)
      have "match_token (cs @ s) = Some (g, r @ s)"
        using Some gr by (simp add: match_token_append)
      moreover have "at_token_boundary r" using "2.prems" True Some gr by simp
      ultimately show ?thesis
        using "2.IH"(2) [OF True Some [unfolded gr] refl] True Some gr
        by (simp split: sum.splits)
    qed
  qed
qed

lemma expand_match_env_unset:
  "qgetenv h name = None \<Longrightarrow> expand_match h sel ctx (''env:'' @ name) = Inr (''env:'' @ name)"
  by (simp add: expand_match_def)

text \<open>
  C9, counterexample.  The string \<^verbatim>\<open>a$b\<close> contains a dollar and is left as it is: a single
  dollar opens no token.
\<close>

theorem expand_string_fixes_lone_dollar:
  "CHR ''$'' \<in> set ''a$b'' \<and> expand_string posix_host sel0 ctx_a ''a$b'' = Inr ''a$b''"
  by (simp add: expand_string_def)

text \<open>
  C9, amended.  A string without a dollar is expanded to itself.  (The converse does not hold:
  a string with a dollar that opens no token is unchanged as well.)
\<close>

theorem expand_string_no_dollar:
  "CHR ''$'' \<notin> set s \<Longrightarrow> expand_string h sel ctx s = Inr s"
  by (simp add: expand_string_def regex_replace_no_dollar)

theorem expand_string_no_dollar_witness:
  "CHR ''$'' \<notin> set ''lib.py'' \<and> expand_string posix_host sel0 ctx_a ''lib.py'' = Inr ''lib.py''"
  using expand_string_no_dollar [of "''lib.py''" posix_host sel0 ctx_a]
  by simp

text \<open>
  C7, counterexample.  \<^verbatim>\<open>HOME\<close> is not set in the example host; the token \<^verbatim>\<open>$env:HOME$\<close> is
  replaced by \<^verbatim>\<open>env:HOME\<close>, not by the empty string.
\<close>

theorem expand_env_unset_not_empty:
  "qgetenv posix_host ''HOME'' = None
   \<and> expand_string posix_host sel0 ctx_a ''$env:HOME$/x'' = Inr ''env:HOME/x''"
  by (simp add: expand_string_def expand_match_def posix_host_def is_line_terminator_def)

text \<open>
  C7, amended.  When the variable \<^verbatim>\<open>NAME\<close> is not set, every token \<^verbatim>\<open>$env:NAME$\<close> that the
  expander matches is replaced by its inner text \<^verbatim>\<open>env:NAME\<close>, the token without its dollars:
  wherever in a string the token stands at a token boundary (its opening dollar is not taken
  by a match that began before it), the expansion of the string is the expansion of the text
  before the token, then \<^verbatim>\<open>env:NAME\<close>, then the expansion of the text after it.
\<close>

theorem expand_env_unset_inner_text:
  assumes "qgetenv h name = None"
    and "CHR ''$'' \<notin> set name"
    and "\<forall>c\<in>set name. \<not> is_line_terminator c"
    and "at_token_boundary pre"
  shows "expand_string h sel ctx (pre @ ''$env:'' @ name @ ''$'' @ post) =
     (case expand_string h sel ctx pre of
        Inl e \<Rightarrow> Inl e
      | Inr a \<Rightarrow>
          (case expand_string h sel ctx post of
             Inl e \<Rightarrow> Inl e
           | Inr b \<Rightarrow> Inr (a @ ''env:'' @ name @ b)))"
proof -
  have m: "match_token (''env:'' @ name @ ''$'' @ post) = Some (''env:'' @ name, post)"
    using scan_close_plain [OF assms(2,3), of post]
    by (simp add: is_line_terminator_def)
  have "regex_replace (expand_match h sel ctx) (''$env:'' @ name @ ''$'' @ post) =
      (case regex_replace (expand_match h sel ctx) post of
         Inl e \<Rightarrow> Inl e
       | Inr out \<Rightarrow> Inr (''env:'' @ name @ out))"
    using m expand_match_env_unset [OF assms(1), of sel ctx]
    by (simp split: sum.splits)
  then show ?thesis
    unfolding expand_string_def
    using regex_replace_at_boundary [OF assms(4), of "expand_match h sel ctx"
        "''$env:'' @ name @ ''$'' @ post"]
    by (simp split: sum.splits)
qed

theorem expand_env_unset_inner_text_witness:
  "qgetenv posix_host ''HOME'' = None
   \<and> CHR ''$'' \<notin> set ''HOME''
   \<and> list_all (\<lambda>c. \<not> is_line_terminator c) ''HOME''
   \<and> at_token_boundary ''$basename$ ''
   \<and> expand_string posix_host sel0 ctx_a ''$basename$ $env:HOME$/x'' = Inr ''a env:HOME/x''"
proof -
  have a: "qgetenv posix_host ''HOME'' = None"
    by (simp add: posix_host_def)
  have b: "CHR ''$'' \<notin> set ''HOME''"
    by simp
  have c: "\<forall>c\<in>set ''HOME''. \<not> is_line_terminator c"
    by (simp add: is_line_terminator_def)
  have d: "at_token_boundary ''$basename$ ''"
    by (simp add: is_line_terminator_def)
  have e: "expand_string posix_host sel0 ctx_a ''/x'' = Inr ''/x''"
    by (simp add: expand_string_def)
  have f: "expand_string posix_host sel0 ctx_a ''$basename$ '' = Inr ''a ''"
    by code_simp
  show ?thesis
    using expand_env_unset_inner_text [OF a b c d, of sel0 ctx_a "''/x''"] a c d e f
    by (simp add: list_all_iff)
qed

subsection \<open>Directives of the manifest\<close>

lemma expand_match_trigger_file [simp]:
  "expand_match h (sel\<lparr>trigger_file := x\<rparr>) = expand_match h sel"
  by (rule ext)+ (simp add: expand_match_def has_dep_def split: option.splits)

lemma expand_file_name_trigger_file [simp]:
  "expand_file_name h (sel\<lparr>trigger_file := x\<rparr>) = expand_file_name h sel"
  by (rule ext)+ (simp add: expand_file_name_def expand_string_def)

lemma expand_match_keep_flag [simp]:
  "expand_match h (sel\<lparr>b_keep_trigger_file := x\<rparr>) = expand_match h sel"
  by (rule ext)+ (simp add: expand_match_def has_dep_def split: option.splits)

lemma expand_file_name_keep_flag [simp]:
  "expand_file_name h (sel\<lparr>b_keep_trigger_file := x\<rparr>) = expand_file_name h sel"
  by (rule ext)+ (simp add: expand_file_name_def expand_string_def)


lemma triggerfile_line:
  assumes "get_value line ''/triggerfile'' 12 = Some v"
  shows "line \<noteq> []" "take 2 line \<noteq> ''//''" "hd line \<noteq> CHR ''#''" "hd line \<noteq> CHR '';''"
    "get_value line ''/pkgbase'' 8 = None" "get_value line ''/reload'' 7 = None"
proof -
  have t: "take 12 line = ''/triggerfile''"
    using assms by (simp add: get_value_def split: if_splits)
  have "take 2 (take 12 line) = take 2 line" "take 8 (take 12 line) = take 8 line"
    "take 7 (take 12 line) = take 7 line" "take 1 (take 12 line) = take 1 line"
    by simp_all
  then have t2: "take 2 line = ''/t''" and t8: "take 8 line = ''/trigger''"
    and t7: "take 7 line = ''/trigge''" and t1: "take 1 line = ''/''"
    unfolding t by simp_all
  show "line \<noteq> []" using t by auto
  show "take 2 line \<noteq> ''//''" using t2 by simp
  show "hd line \<noteq> CHR ''#''" "hd line \<noteq> CHR '';''" using t1 by (cases line; simp)+
  show "get_value line ''/pkgbase'' 8 = None" using t8 by (simp add: get_value_def)
  show "get_value line ''/reload'' 7 = None" using t7 by (simp add: get_value_def)
qed

text \<open>
  No call of the parser writes the \<^verbatim>\<open>pkg_base\<close> of the active script: \<^verbatim>\<open>set_selected_script\<close>
  returns it as it found it, whatever the manifests hold.
\<close>

lemma parse_line_pkg_base:
  assumes rec: "\<And>c s b s' e. rec c s = Inr (b, s', e) \<Longrightarrow> pkg_base s' = pkg_base s"
    and run: "parse_line h fs rec raw ctx sel = Inr (ctx', sel', evs)"
  shows "pkg_base sel' = pkg_base sel"
  using run
  by (auto simp: parse_line_def Let_def refresh_def
      split: if_splits option.splits sum.splits prod.splits dest!: rec)

lemma parse_lines_pkg_base:
  assumes step: "\<And>raw c s c' s' e. step raw c s = Inr (c', s', e) \<Longrightarrow> pkg_base s' = pkg_base s"
    and run: "parse_lines step ls ctx sel = Inr (ctx', sel', evs)"
  shows "pkg_base sel' = pkg_base sel"
  using run
proof (induction ls arbitrary: ctx sel evs)
  case Nil
  then show ?case by simp
next
  case (Cons raw rest)
  from Cons.prems obtain c1 s1 e1 e2 where
    1: "step raw ctx sel = Inr (c1, s1, e1)"
    and 2: "parse_lines step rest c1 s1 = Inr (ctx', sel', e2)"
    by (auto split: sum.splits)
  show ?case using step [OF 1] Cons.IH [OF 2] by simp
qed

lemma parse_deps_for_script_pkg_base:
  "parse_deps_for_script n h fs ctx sel = Inr (b, sel', evs) \<Longrightarrow> pkg_base sel' = pkg_base sel"
proof (induction n arbitrary: ctx sel b sel' evs)
  case 0
  then show ?case by simp
next
  case (Suc n)
  show ?case
  proof (cases "open_dep_file fs (ctx_script_file ctx)")
    case None
    then show ?thesis using Suc.prems by simp
  next
    case (Some a)
    obtain dep_file ls where a: "a = (dep_file, ls)" by (cases a)
    define sel1 where "sel1 = snd (add_dep_index fs dep_file sel)"
    have s1: "pkg_base sel1 = pkg_base sel"
      by (auto simp: sel1_def add_dep_index_def split: option.splits)
    from Suc.prems Some a obtain ctx2 where
      r: "parse_lines (parse_line h fs (parse_deps_for_script n h fs)) ls
            (ctx\<lparr>ctx_base_dir := qdirname h dep_file\<rparr>) sel1 = Inr (ctx2, sel', evs)"
      by (auto simp: Let_def sel1_def split: sum.splits)
    have "pkg_base sel' = pkg_base sel1"
      by (rule parse_lines_pkg_base [OF parse_line_pkg_base [OF Suc.IH] r])
    then show ?thesis using s1 by simp
  qed
qed

lemma set_selected_script_pkg_base:
  "set_selected_script n h fs script sel = Inr (sel', evs) \<Longrightarrow> pkg_base sel' = pkg_base sel"
  by (auto simp: set_selected_script_def Let_def assign_script_def
      split: sum.splits dest!: parse_deps_for_script_pkg_base)

text \<open>
  In a manifest that is not the top-level one, a \<^verbatim>\<open>/triggerfile\<close> line changes nothing but
  the flag \<^verbatim>\<open>b_keep_trigger_file\<close>, which it sets when the value starts with \<^verbatim>\<open>/keep\<close>.
\<close>

lemma nested_triggerfile_line:
  assumes "\<not> ctx_main_file ctx"
    and "get_value (trim2 raw) ''/triggerfile'' 12 = Some v"
  shows "parse_line h fs rec raw ctx sel =
      Inr (ctx, if get_value v ''/keep'' 5 = None then sel
                else sel\<lparr>b_keep_trigger_file := True\<rparr>, [])"
  using assms triggerfile_line [OF assms(2)]
  by (cases "get_value v ''/keep'' 5") (simp_all add: parse_line_def Let_def)

text \<open>
  C8.  The top-level manifest of \<^verbatim>\<open>/t/a.py\<close> holds \<^verbatim>\<open>/pkgbase pkg\<close> and the dependency
  \<^verbatim>\<open>lib.py\<close>.  After \<^verbatim>\<open>set_selected_script\<close> the dependency carries the package base
  \<^verbatim>\<open>/t/pkg\<close>, and the \<^verbatim>\<open>pkg_base\<close> of the active script itself is still empty: the directive
  is stored in the parsing context only.
\<close>

theorem pkgbase_not_stored_in_active_script:
  "map_sum id (\<lambda>(s, evs). (pkg_base s, map_option pkg_base (has_dep s ''/t/lib.py'')))
     (set_selected_script 2 posix_host fs_pkg scr_a sel0)
   = Inr ([], Some ''/t/pkg'')"
  by code_simp

text \<open>
  C6.  The top-level manifest of \<^verbatim>\<open>/t/a.py\<close> holds \<^verbatim>\<open>/triggerfile /t/go\<close> (no \<^verbatim>\<open>/keep\<close>) and
  the dependency \<^verbatim>\<open>lib.py\<close>, whose own manifest holds \<^verbatim>\<open>/triggerfile /keep /t/other\<close>.  The
  nested line leaves the trigger file alone and still sets \<^verbatim>\<open>b_keep_trigger_file\<close>.
\<close>

theorem nested_triggerfile_sets_keep_flag:
  "b_keep_trigger_file sel0 = False
   \<and> map_sum id (\<lambda>(s, evs). (file_path (trigger_file s), b_keep_trigger_file s))
        (set_selected_script 2 posix_host fs_keep scr_a sel0)
      = Inr (''/t/go'', True)"
  by code_simp




subsection \<open>The parser: probes and dependencies\<close>

text \<open>
  The record package does not rewrite a selector whose value is itself a \<^verbatim>\<open>fileinfo_t\<close> over
  an update of a \<^verbatim>\<open>fileinfo_t\<close> field of the enclosing record (and the reverse); these are the
  missing rules.
\<close>

lemma trigger_file_frame [simp]:
  "trigger_file (file_path_update f s) = trigger_file s"
  "trigger_file (modified_time_update g s) = trigger_file s"
  "file_path (trigger_file_update k s) = file_path s"
  "modified_time (trigger_file_update k s) = modified_time s"
  by (cases s; simp)+

lemma has_dep_None: "has_dep sel p = None \<longleftrightarrow> p \<notin> dep_keys sel"
  by (simp add: has_dep_def dep_keys_def map_of_eq_None_iff)

lemma dep_keys_simps [simp]:
  "dep_keys (sel\<lparr>b_keep_trigger_file := b\<rparr>) = dep_keys sel"
  "dep_keys (sel\<lparr>trigger_file := t\<rparr>) = dep_keys sel"
  "dep_keys (sel\<lparr>dep_indices := i\<rparr>) = dep_keys sel"
  "dep_keys (sel\<lparr>dep_scripts := AList.update k v (dep_scripts sel)\<rparr>) = insert k (dep_keys sel)"
  by (auto simp: dep_keys_def dom_update)

lemma recorded_paths_append [simp]:
  "recorded_paths (evs @ evs') = recorded_paths evs @ recorded_paths evs'"
  by (induction evs rule: recorded_paths.induct) simp_all

lemma is_probe_kinds:
  "is_probe e \<Longrightarrow>
   \<not> is_execution e \<and> \<not> is_reload_failure e \<and> e \<noteq> RefreshChooser \<and> e \<noteq> EvalSnippet p cmd b"
  by (cases e) simp_all

text \<open>
  What a parse does to the dependencies: the path of the active script stays, the keys of the
  map grow by exactly the paths that the dependency lines were resolved to and that were found,
  and the events are those probes.
\<close>

lemma parse_line_probes:
  assumes rec: "\<And>c s b s' e. rec c s = Inr (b, s', e) \<Longrightarrow>
                  file_path s' = file_path s
                  \<and> dep_keys s' = dep_keys s \<union> set (recorded_paths e) \<and> list_all is_probe e"
    and run: "parse_line h fs rec raw ctx sel = Inr (ctx', sel', evs)"
  shows "file_path sel' = file_path sel
    \<and> dep_keys sel' = dep_keys sel \<union> set (recorded_paths evs) \<and> list_all is_probe evs"
proof -
  define line where "line = trim2 raw"
  show ?thesis
  proof (cases "line = [] \<or> take 2 line = ''//'' \<or> hd line = CHR ''#'' \<or> hd line = CHR '';''
      \<or> get_value line ''/pkgbase'' 8 \<noteq> None \<or> get_value line ''/reload'' 7 \<noteq> None")
    case True
    show ?thesis
    proof (cases "line = [] \<or> take 2 line = ''//'' \<or> hd line = CHR ''#'' \<or> hd line = CHR '';''")
      case comment: True
      then show ?thesis using run by (simp add: parse_line_def Let_def line_def [symmetric])
    next
      case False
      then show ?thesis using run True
        by (cases "get_value line ''/pkgbase'' 8"; cases "get_value line ''/reload'' 7")
           (auto simp: parse_line_def Let_def line_def [symmetric])
    qed
  next
    case plain: False
    show ?thesis
    proof (cases "get_value line ''/triggerfile'' 12")
      case (Some v)
      then show ?thesis using run plain
        by (auto simp: parse_line_def Let_def line_def [symmetric] refresh_def
            split: if_splits option.splits sum.splits)
    next
      case None
      define ctx1 where "ctx1 = ctx\<lparr>ctx_script_file := line\<rparr>"
      from None plain run obtain line' where e: "expand_file_name h sel ctx1 line = Inr line'"
        by (auto simp: parse_line_def Let_def line_def [symmetric] ctx1_def split: sum.splits)
      show ?thesis
      proof (cases "mtime_of fs line'")
        case nf: None
        then show ?thesis using None plain run e
          by (auto simp: parse_line_def Let_def line_def [symmetric] ctx1_def [symmetric])
      next
        case (Some t)
        define d where "d = \<lparr>file_path = line', modified_time = t,
                              reload_cmd = ctx_reload_cmd ctx1, pkg_base = ctx_pkg_base ctx1\<rparr>"
        define sel1 where "sel1 = sel\<lparr>dep_scripts := AList.update line' d (dep_scripts sel)\<rparr>"
        from None plain run e Some obtain b e2 where
          r: "rec (ctx1\<lparr>ctx_script_file := line', ctx_main_file := False\<rparr>) sel1 = Inr (b, sel', e2)"
          and ev: "evs = DepProbe line line' True # e2"
          by (auto simp: parse_line_def Let_def line_def [symmetric] ctx1_def [symmetric]
              d_def sel1_def split: sum.splits)
        have "file_path sel1 = file_path sel" "dep_keys sel1 = insert line' (dep_keys sel)"
          by (simp_all add: sel1_def)
        then show ?thesis using rec [OF r] ev by auto
      qed
    qed
  qed
qed

lemma parse_lines_probes:
  assumes step: "\<And>raw c s c' s' e. step raw c s = Inr (c', s', e) \<Longrightarrow>
                  file_path s' = file_path s
                  \<and> dep_keys s' = dep_keys s \<union> set (recorded_paths e) \<and> list_all is_probe e"
    and run: "parse_lines step ls ctx sel = Inr (ctx', sel', evs)"
  shows "file_path sel' = file_path sel
    \<and> dep_keys sel' = dep_keys sel \<union> set (recorded_paths evs) \<and> list_all is_probe evs"
  using run
proof (induction ls arbitrary: ctx sel evs)
  case Nil
  then show ?case by simp
next
  case (Cons raw rest)
  from Cons.prems obtain c1 s1 e1 e2 where
    1: "step raw ctx sel = Inr (c1, s1, e1)"
    and 2: "parse_lines step rest c1 s1 = Inr (ctx', sel', e2)" and 3: "evs = e1 @ e2"
    by (auto split: sum.splits)
  show ?case using step [OF 1] Cons.IH [OF 2] 3 by auto
qed

lemma parse_deps_for_script_probes:
  "parse_deps_for_script n h fs ctx sel = Inr (b, sel', evs) \<Longrightarrow>
   file_path sel' = file_path sel
   \<and> dep_keys sel' = dep_keys sel \<union> set (recorded_paths evs) \<and> list_all is_probe evs"
proof (induction n arbitrary: ctx sel b sel' evs)
  case 0
  then show ?case by simp
next
  case (Suc n)
  show ?case
  proof (cases "open_dep_file fs (ctx_script_file ctx)")
    case None
    then show ?thesis using Suc.prems by simp
  next
    case (Some a)
    obtain dep_file ls where a: "a = (dep_file, ls)" by (cases a)
    define sel1 where "sel1 = snd (add_dep_index fs dep_file sel)"
    have s1: "file_path sel1 = file_path sel" "dep_keys sel1 = dep_keys sel"
      by (auto simp: sel1_def add_dep_index_def split: option.splits)
    from Suc.prems Some a obtain ctx2 where
      r: "parse_lines (parse_line h fs (parse_deps_for_script n h fs)) ls
            (ctx\<lparr>ctx_base_dir := qdirname h dep_file\<rparr>) sel1 = Inr (ctx2, sel', evs)"
      by (auto simp: Let_def sel1_def split: sum.splits)
    show ?thesis
      using parse_lines_probes [OF parse_line_probes [OF Suc.IH] r] s1 by simp
  qed
qed

lemma set_selected_script_probes:
  assumes "set_selected_script n h fs script sel = Inr (sel', evs)"
  shows "file_path sel' = file_path script
    \<and> dep_keys sel' = set (recorded_paths evs) \<and> list_all is_probe evs"
proof -
  from assms obtain b ctx where
    p: "parse_deps_for_script n h fs ctx (assign_script script sel) = Inr (b, sel', evs)"
    by (auto simp: set_selected_script_def Let_def split: sum.splits)
  have "dep_keys (assign_script script sel) = {}"
    "file_path (assign_script script sel) = file_path script"
    by (simp_all add: assign_script_def dep_keys_def)
  then show ?thesis using parse_deps_for_script_probes [OF p] by simp
qed

lemma set_selected_script_events:
  assumes "set_selected_script n h fs script sel = Inr (sel', evs)"
  shows "\<not> list_ex is_execution evs" "\<not> list_ex is_reload_failure evs"
    "RefreshChooser \<notin> set evs" "EvalSnippet p cmd b \<notin> set evs"
  using set_selected_script_probes [OF assms] is_probe_kinds
  by (auto simp: list_all_iff list_ex_iff)

subsection \<open>The monitor: frame facts\<close>

lemma get_modification_status_path [simp]:
  "file_path (snd (get_modification_status fs u fi)) = file_path fi"
  by (simp add: get_modification_status_def split: option.splits)

lemma get_modification_status_modified:
  "get_modification_status fs True fi = (modified, fi') \<Longrightarrow>
   file_path fi' = file_path fi \<and> mtime_of fs (file_path fi) = Some (modified_time fi')"
  by (auto simp: get_modification_status_def split: option.splits if_splits)

lemma get_modification_status_current:
  "mtime_of fs (file_path fi) = Some (modified_time fi) \<Longrightarrow>
   get_modification_status fs u fi = (not_modified, fi)"
  by (simp add: get_modification_status_def)

lemma is_any_dep_index_modified_frame:
  "is_any_dep_index_modified fs u sel = (r, sel1) \<Longrightarrow> \<exists>idx. sel1 = sel\<lparr>dep_indices := idx\<rparr>"
  by (auto simp: is_any_dep_index_modified_def split: prod.splits)

lemma set_selected_script_self:
  "set_selected_script n h fs (sel\<lparr>dep_indices := idx, dep_scripts := ds\<rparr>)
      (sel\<lparr>dep_indices := idx, dep_scripts := ds\<rparr>) = set_selected_script n h fs sel sel"
  by (simp add: set_selected_script_def assign_script_def)

lemma filemon_timer_cb_same_disk:
  "filemon_timer_cb n h fs st = Inr (st', fs', delay, evs) \<Longrightarrow>
   \<not> trigger_based (selected_script st) \<Longrightarrow> fs' = fs"
  by (auto simp: filemon_timer_cb_def filemon_trigger_stage_def Let_def split: if_splits sum.splits)

lemma tick_outcome_same_disk:
  "tick_outcome (filemon_timer_cb n h fs st) = Inr (st', delay, evs) \<Longrightarrow>
   \<not> trigger_based (selected_script st) \<Longrightarrow>
   filemon_timer_cb n h fs st = Inr (st', fs, delay, evs)"
  by (cases "filemon_timer_cb n h fs st")
     (auto simp: tick_outcome_def dest: filemon_timer_cb_same_disk)

subsection \<open>The monitor: events of the stages\<close>

lemma execute_reload_directive_events:
  "execute_reload_directive h sel d = Inr (ok, evs) \<Longrightarrow>
   \<not> list_ex is_execution evs \<and> (list_ex is_reload_failure evs \<longrightarrow> \<not> ok)"
  by (auto simp: execute_reload_directive_def Let_def split: option.splits sum.splits)

lemma execute_reload_directive_snippets:
  "execute_reload_directive h sel d = Inr (ok, evs) \<Longrightarrow> EvalSnippet p cmd b \<in> set evs \<Longrightarrow>
   p = file_path d \<and> b = ok"
  by (auto simp: execute_reload_directive_def Let_def split: option.splits sum.splits)

lemma execute_script_events:
  "execute_script h fs st s u = (ok, s', st', evs) \<Longrightarrow> \<not> list_ex is_reload_failure evs"
  by (auto simp: execute_script_def execute_script_sync_def Let_def activate_monitor_def
      split: option.splits if_splits)

lemma execute_script_snippets:
  "execute_script h fs st s u = (ok, s', st', evs) \<Longrightarrow> EvalSnippet p cmd b \<notin> set evs"
  by (auto simp: execute_script_def execute_script_sync_def Let_def activate_monitor_def
      split: option.splits if_splits)

lemma filemon_trigger_stage_events:
  "filemon_trigger_stage fs st = (go, st1, fs1, ev1) \<Longrightarrow>
   \<not> list_ex is_execution ev1 \<and> \<not> list_ex is_reload_failure ev1"
  by (auto simp: filemon_trigger_stage_def Let_def split: if_splits prod.splits)

text \<open>One step of the loop over the dependencies: skipped, reload failed, or passed.\<close>

lemma check_dep_scripts_Cons_cases:
  assumes "check_dep_scripts h fs sel done ((k, d) # rest) = Inr (deps', changed, brk, evs)"
  obtains (skip) status d' where "get_modification_status fs True d = (status, d')"
      and "status \<noteq> modified"
      and "check_dep_scripts h fs sel (done @ [(k, d')]) rest = Inr (deps', changed, brk, evs)"
  | (fail) d' evr where "get_modification_status fs True d = (modified, d')"
      and "has_reload_directive d'"
      and "execute_reload_directive h (sel\<lparr>dep_scripts := done @ (k, d') # rest\<rparr>) d' = Inr (False, evr)"
      and "deps' = done @ (k, d') # rest" and "changed" and "brk"
      and "evs = evr @ [Msg ReloadWarning (file_path d')]"
  | (pass) d' evr changed' evs' where "get_modification_status fs True d = (modified, d')"
      and "(if has_reload_directive d'
            then execute_reload_directive h (sel\<lparr>dep_scripts := done @ (k, d') # rest\<rparr>) d'
            else Inr (True, [])) = Inr (True, evr)"
      and "check_dep_scripts h fs sel (done @ [(k, d')]) rest = Inr (deps', changed', brk, evs')"
      and "changed" and "evs = evr @ evs'"
proof -
  obtain status d' where g: "get_modification_status fs True d = (status, d')"
    by (cases "get_modification_status fs True d")
  show thesis
  proof (cases "status = modified")
    case False
    then show thesis using assms g skip by simp
  next
    case True
    define r where "r = (if has_reload_directive d'
            then execute_reload_directive h (sel\<lparr>dep_scripts := done @ (k, d') # rest\<rparr>) d'
            else Inr (True, []))"
    from assms g True obtain ok evr where r: "r = Inr (ok, evr)"
      by (cases r) (auto simp: r_def)
    show thesis
    proof (cases ok)
      case False
      then have "has_reload_directive d'" using r by (auto simp: r_def split: if_splits)
      then show thesis using assms g True r False fail [of d' evr]
        by (simp add: r_def)
    next
      case ok: True
      from assms g True r ok obtain changed' evs' where
        "check_dep_scripts h fs sel (done @ [(k, d')]) rest = Inr (deps', changed', brk, evs')"
        "changed" "evs = evr @ evs'"
        unfolding r_def by (auto split: sum.splits)
      then show thesis using g True r ok pass [of d' evr changed' evs'] by (simp add: r_def)
    qed
  qed
qed

lemma check_dep_scripts_events:
  "check_dep_scripts h fs sel done todo = Inr (deps', changed, brk, evs) \<Longrightarrow>
   \<not> list_ex is_execution evs \<and> (list_ex is_reload_failure evs \<longrightarrow> brk)"
proof (induction todo arbitrary: "done" deps' changed brk evs)
  case Nil
  then show ?case by simp
next
  case (Cons kd rest)
  obtain k d where kd: "kd = (k, d)" by (cases kd)
  from Cons.prems [unfolded kd] show ?case
  proof (cases rule: check_dep_scripts_Cons_cases)
    case (skip status d')
    then show ?thesis using Cons.IH by blast
  next
    case (fail d' evr)
    then show ?thesis using execute_reload_directive_events by fastforce
  next
    case (pass d' evr changed' evs')
    have "\<not> list_ex is_execution evr \<and> \<not> list_ex is_reload_failure evr"
      using pass(2) execute_reload_directive_events [of h _ d' True evr]
      by (auto split: if_splits)
    then show ?thesis using pass Cons.IH [OF pass(3)] by simp
  qed
qed


subsection \<open>Ticks of the example chooser\<close>

lemma st_reload_not_trigger_based:
  "\<not> trigger_based (selected_script st_reload)"
  "\<not> trigger_based (selected_script st_reload1)"
  by (simp_all add: st_reload_def st_reload1_def chooser_of_def sel_reload_def trigger_based_def
      fi_empty_def empty_fileinfo_def)

lemma tick_reload_main_first:
  "filemon_timer_cb 2 posix_host fs_reload_main st_reload =
     Inr (st_reload1, fs_reload_main, 500,
          [EvalSnippet ''/t/lib.py'' ''reload(lib)'' False, Msg ReloadWarning ''/t/lib.py''])"
proof -
  have "tick_outcome (filemon_timer_cb 2 posix_host fs_reload_main st_reload) =
     Inr (st_reload1, 500,
          [EvalSnippet ''/t/lib.py'' ''reload(lib)'' False, Msg ReloadWarning ''/t/lib.py''])"
    by code_simp
  then show ?thesis
    using st_reload_not_trigger_based(1) by (rule tick_outcome_same_disk)
qed

lemma tick_reload_main_second:
  "filemon_timer_cb 2 posix_host fs_reload_main st_reload1 =
     Inr (st_reload2, fs_reload_main, 500, [CompileFile ''/t/a.py'' True])"
proof -
  have "tick_outcome (filemon_timer_cb 2 posix_host fs_reload_main st_reload1) =
     Inr (st_reload2, 500, [CompileFile ''/t/a.py'' True])"
    by code_simp
  then show ?thesis
    using st_reload_not_trigger_based(2) by (rule tick_outcome_same_disk)
qed

lemma tick_reload_first:
  "filemon_timer_cb 2 posix_host fs_reload st_reload =
     Inr (st_reload1, fs_reload, 500,
          [EvalSnippet ''/t/lib.py'' ''reload(lib)'' False, Msg ReloadWarning ''/t/lib.py''])"
proof -
  have "tick_outcome (filemon_timer_cb 2 posix_host fs_reload st_reload) =
     Inr (st_reload1, 500,
          [EvalSnippet ''/t/lib.py'' ''reload(lib)'' False, Msg ReloadWarning ''/t/lib.py''])"
    by code_simp
  then show ?thesis
    using st_reload_not_trigger_based(1) by (rule tick_outcome_same_disk)
qed

lemma tick_reload_second:
  "filemon_timer_cb 2 posix_host fs_reload st_reload1 = Inr (st_reload1, fs_reload, 500, [])"
proof -
  have "tick_outcome (filemon_timer_cb 2 posix_host fs_reload st_reload1) = Inr (st_reload1, 500, [])"
    by code_simp
  then show ?thesis
    using st_reload_not_trigger_based(2) by (rule tick_outcome_same_disk)
qed

lemma tick_manifest:
  "filemon_timer_cb 2 posix_host fs_manifest st_reload =
     Inr (st_manifest, fs_manifest, 1,
          [DepProbe ''lib.py'' ''/t/lib.py'' True, DepProbe ''lib2.py'' ''/t/lib2.py'' True,
           RefreshChooser])"
proof -
  have "tick_outcome (filemon_timer_cb 2 posix_host fs_manifest st_reload) =
     Inr (st_manifest, 1,
          [DepProbe ''lib.py'' ''/t/lib.py'' True, DepProbe ''lib2.py'' ''/t/lib2.py'' True,
           RefreshChooser])"
    by code_simp
  then show ?thesis
    using st_reload_not_trigger_based(1) by (rule tick_outcome_same_disk)
qed

subsection \<open>A failed reload aborts the tick\<close>



subsection \<open>The parser returns\<close>

text \<open>
  The one read past the end of a string (line 411) is made for a token whose group starts with
  \<^verbatim>\<open>pkgmodname\<close>.  On a disk none of whose manifest lines holds the text \<^verbatim>\<open>$pkgmodname\<close>
  every call of the parser returns, whatever the manifests name and however they are nested.
\<close>

lemma scan_close_decomp: "scan_close cs = Some (g, r) \<Longrightarrow> cs = g @ CHR ''$'' # r"
  by (induction cs arbitrary: g) (auto split: if_splits option.splits)

lemma match_token_decomp: "match_token cs = Some (g, r) \<Longrightarrow> cs = g @ CHR ''$'' # r"
  by (cases cs) (auto split: if_splits option.splits dest: scan_close_decomp)

lemma expand_match_returns:
  "take 10 g \<noteq> ''pkgmodname'' \<Longrightarrow> \<exists>v. expand_match h sel ctx g = Inr v"
  by (simp add: expand_match_def split: option.splits)

lemma regex_replace_returns:
  "\<not> sublist ''$pkgmodname'' s \<Longrightarrow> \<exists>out. regex_replace (expand_match h sel ctx) s = Inr out"
proof (induction "expand_match h sel ctx" s rule: regex_replace.induct)
  case 1
  then show ?case by simp
next
  case (2 c cs)
  have tl: "\<not> sublist ''$pkgmodname'' cs"
    using "2.prems" by (auto simp: sublist_Cons_right)
  show ?case
  proof (cases "c = CHR ''$''")
    case False
    then show ?thesis using "2.hyps"(3) tl by (auto split: sum.splits)
  next
    case True
    show ?thesis
    proof (cases "match_token cs")
      case None
      then show ?thesis using "2.hyps"(1) True tl by (auto split: sum.splits)
    next
      case (Some gr)
      obtain g r where gr: "gr = (g, r)" by (cases gr)
      have cs: "cs = g @ CHR ''$'' # r" using Some gr match_token_decomp by simp
      have "take 10 g \<noteq> ''pkgmodname''"
      proof
        assume t: "take 10 g = ''pkgmodname''"
        then have "g = ''pkgmodname'' @ drop 10 g" by (metis append_take_drop_id)
        then have "c # cs = [] @ ''$pkgmodname'' @ (drop 10 g @ CHR ''$'' # r)"
          using cs True by simp
        then have "sublist ''$pkgmodname'' (c # cs)" unfolding sublist_def by blast
        then show False using "2.prems" by simp
      qed
      then obtain v where v: "expand_match h sel ctx g = Inr v"
        using expand_match_returns by blast
      have "\<not> sublist ''$pkgmodname'' r"
      proof
        assume "sublist ''$pkgmodname'' r"
        then have "sublist ''$pkgmodname'' ((c # g @ [CHR ''$'']) @ r)"
          using sublist_order.order_trans [OF _ sublist_append_leftI] by blast
        then show False using "2.prems" cs by simp
      qed
      then obtain out where "regex_replace (expand_match h sel ctx) r = Inr out"
        using "2.hyps"(2) [OF True Some [unfolded gr] refl v] by blast
      then show ?thesis using True Some gr v by simp
    qed
  qed
qed

lemma expand_file_name_returns:
  "\<not> sublist ''$pkgmodname'' s \<Longrightarrow> \<exists>p. expand_file_name h sel ctx s = Inr p"
  using regex_replace_returns [of s h sel ctx]
  by (auto simp: expand_file_name_def expand_string_def)

lemma sublist_trim2: "sublist (trim2 s) s"
proof -
  have "sublist (rev (dropWhile (\<lambda>c. c = CHR '' '') (rev t))) t" for t
    using sublist_dropWhile [of "\<lambda>c. c = CHR '' ''" "rev t"] sublist_rev
    by (metis rev_rev_ident)
  then have "sublist (trim2 s) (dropWhile (\<lambda>c. c = CHR '' '') s)"
    by (simp add: trim2_def)
  then show ?thesis
    using sublist_dropWhile sublist_order.order_trans by blast
qed

lemma sublist_get_value: "get_value s key k = Some v \<Longrightarrow> sublist v s"
  by (auto simp: get_value_def sublist_drop split: if_splits)

lemma parse_line_returns:
  assumes rec: "\<And>c s. \<exists>r. rec c s = Inr r"
    and np: "\<not> sublist ''$pkgmodname'' raw"
  shows "\<exists>r. parse_line h fs rec raw ctx sel = Inr r"
proof -
  define line where "line = trim2 raw"
  have nl: "\<not> sublist ''$pkgmodname'' line"
    using np sublist_trim2 [of raw] sublist_order.order_trans unfolding line_def by blast
  have nv: "\<not> sublist ''$pkgmodname'' v" if "sublist v line" for v
    using nl that sublist_order.order_trans by blast
  show ?thesis
  proof (cases "line = [] \<or> take 2 line = ''//'' \<or> hd line = CHR ''#'' \<or> hd line = CHR '';''")
    case True
    then show ?thesis by (simp add: parse_line_def Let_def line_def [symmetric])
  next
    case plain: False
    show ?thesis
    proof (cases "get_value line ''/pkgbase'' 8")
      case (Some v)
      then show ?thesis using plain by (simp add: parse_line_def Let_def line_def [symmetric])
    next
      case pk: None
      show ?thesis
      proof (cases "get_value line ''/reload'' 7")
        case (Some v)
        then show ?thesis using plain pk
          by (simp add: parse_line_def Let_def line_def [symmetric])
      next
        case rl: None
        show ?thesis
        proof (cases "get_value line ''/triggerfile'' 12")
          case (Some v)
          define w where "w = (case get_value v ''/keep'' 5 of Some keep \<Rightarrow> keep | None \<Rightarrow> v)"
          have "sublist v line" using Some by (rule sublist_get_value)
          moreover have "sublist w v"
            by (auto simp: w_def split: option.splits dest: sublist_get_value)
          ultimately have "sublist w line" using sublist_order.order_trans by blast
          then have "\<not> sublist ''$pkgmodname'' w" by (rule nv)
          then obtain p where "expand_file_name h sel ctx w = Inr p"
            using expand_file_name_returns by blast
          then show ?thesis using plain pk rl Some
            by (cases "get_value v ''/keep'' 5"; cases "mtime_of fs w")
               (simp_all add: parse_line_def Let_def line_def [symmetric] refresh_def w_def)
        next
          case None
          obtain line' where e: "expand_file_name h sel (ctx\<lparr>ctx_script_file := line\<rparr>) line = Inr line'"
            using expand_file_name_returns [OF nl] by blast
          show ?thesis
          proof (cases "mtime_of fs line'")
            case nf: None
            then show ?thesis using plain pk rl None e
              by (simp add: parse_line_def Let_def line_def [symmetric])
          next
            case (Some t)
            define sel1 where "sel1 = sel\<lparr>dep_scripts :=
              AList.update line' \<lparr>file_path = line', modified_time = t,
                                   reload_cmd = ctx_reload_cmd ctx, pkg_base = ctx_pkg_base ctx\<rparr>
                (dep_scripts sel)\<rparr>"
            obtain b s2 e2 where
              "rec (ctx\<lparr>ctx_script_file := line', ctx_main_file := False\<rparr>) sel1 = Inr (b, s2, e2)"
              using rec [of "ctx\<lparr>ctx_script_file := line', ctx_main_file := False\<rparr>" sel1]
              by (metis prod_cases3)
            then show ?thesis using plain pk rl None e Some
              by (simp add: parse_line_def Let_def line_def [symmetric] sel1_def)
          qed
        qed
      qed
    qed
  qed
qed

lemma parse_lines_returns:
  assumes "\<And>raw c s. raw \<in> set ls \<Longrightarrow> \<exists>r. step raw c s = Inr r"
  shows "\<exists>r. parse_lines step ls ctx sel = Inr r"
  using assms
proof (induction ls arbitrary: ctx sel)
  case Nil
  then show ?case by simp
next
  case (Cons raw rest)
  obtain c1 s1 e1 where 1: "step raw ctx sel = Inr (c1, s1, e1)"
    using Cons.prems [of raw ctx sel] by (auto simp: prod_cases3)
  obtain c2 s2 e2 where "parse_lines step rest c1 s1 = Inr (c2, s2, e2)"
    using Cons.IH [of c1 s1] Cons.prems by (metis list.set_intros(2) prod_cases3)
  then show ?case using 1 by simp
qed

lemma open_dep_file_lines:
  "open_dep_file fs p = Some (dep_file, ls) \<Longrightarrow> lines_of fs dep_file = Some ls"
  by (auto simp: open_dep_file_def split: option.splits)

lemma parse_deps_for_script_returns:
  assumes "\<forall>m ls raw. lines_of fs m = Some ls \<longrightarrow> raw \<in> set ls \<longrightarrow> \<not> sublist ''$pkgmodname'' raw"
  shows "\<exists>r. parse_deps_for_script n h fs ctx sel = Inr r"
proof (induction n arbitrary: ctx sel)
  case 0
  show ?case by (rule exI [of _ "(False, sel, [])"]) simp
next
  case (Suc n)
  show ?case
  proof (cases "open_dep_file fs (ctx_script_file ctx)")
    case None
    then show ?thesis by (intro exI [of _ "(False, sel, [])"]) simp
  next
    case (Some a)
    obtain dep_file ls where a: "a = (dep_file, ls)" by (cases a)
    have np: "\<not> sublist ''$pkgmodname'' raw" if "raw \<in> set ls" for raw
      using assms open_dep_file_lines [OF Some [unfolded a]] that by blast
    have step: "\<exists>r. parse_line h fs (parse_deps_for_script n h fs) raw c s = Inr r"
      if "raw \<in> set ls" for raw c s
      by (rule parse_line_returns [OF Suc.IH np [OF that]])
    obtain c2 s2 e2 where
      "parse_lines (parse_line h fs (parse_deps_for_script n h fs)) ls
         (ctx\<lparr>ctx_base_dir := qdirname h dep_file\<rparr>) (snd (add_dep_index fs dep_file sel))
       = Inr (c2, s2, e2)"
      using parse_lines_returns [of ls "parse_line h fs (parse_deps_for_script n h fs)", OF step]
      by (metis prod_cases3)
    then show ?thesis using Some a by (auto simp: Let_def)
  qed
qed

lemma set_selected_script_returns:
  assumes "\<forall>m ls raw. lines_of fs m = Some ls \<longrightarrow> raw \<in> set ls \<longrightarrow> \<not> sublist ''$pkgmodname'' raw"
  shows "\<exists>sel' evs. set_selected_script n h fs script sel = Inr (sel', evs)"
proof -
  obtain b s e where "parse_deps_for_script n h fs
      \<lparr>ctx_script_file = file_path script, ctx_main_file = True,
       ctx_base_dir = [], ctx_pkg_base = [], ctx_reload_cmd = []\<rparr> (assign_script script sel)
      = Inr (b, s, e)"
    using parse_deps_for_script_returns [OF assms] by (metis prod_cases3)
  then show ?thesis by (auto simp: set_selected_script_def)
qed

subsection \<open>A modified manifest\<close>

text \<open>
  C2.  In a tick that reaches the manifests (the monitor is active, a script is selected, the
  trigger stage lets the tick go on) and finds one of them modified, the callback is
  \<^verbatim>\<open>set_selected_script\<close> on the current script (which empties the dependencies and parses all
  manifests again) followed by \<^verbatim>\<open>invalidate_all_scripts\<close> and a refresh of the chooser.  Every
  result of such a tick is the delay 1, with the time of the main script and of every
  dependency 0.  The tick has a result unless the parser reads past the end of a string; on a
  disk none of whose manifest lines holds the text \<^verbatim>\<open>$pkgmodname\<close> it returns 1.
\<close>

theorem manifest_modified_reparses:
  assumes "is_monitor_active st" and "has_selected_script st"
    and "filemon_trigger_stage fs st = (True, st1, fs1, ev1)"
    and "fst (is_any_dep_index_modified fs1 True (selected_script st1)) = modified"
  shows "filemon_timer_cb n h fs st =
      (case set_selected_script n h fs1 (selected_script st1) (selected_script st1) of
         Inl e \<Rightarrow> Inl e
       | Inr (sel, evp) \<Rightarrow>
           Inr (st1\<lparr>selected_script := invalidate_all_scripts sel\<rparr>, fs1, 1,
                ev1 @ evp @ [RefreshChooser]))
    \<and> (\<forall>st' fs' delay evs. filemon_timer_cb n h fs st = Inr (st', fs', delay, evs) \<longrightarrow>
          delay = 1 \<and> modified_time (selected_script st') = 0
          \<and> (\<forall>kv\<in>set (dep_scripts (selected_script st')). modified_time (snd kv) = 0))
    \<and> ((\<forall>m ls raw. lines_of fs1 m = Some ls \<longrightarrow> raw \<in> set ls \<longrightarrow>
            \<not> sublist ''$pkgmodname'' raw) \<longrightarrow>
        (\<exists>st' evs. filemon_timer_cb n h fs st = Inr (st', fs1, 1, evs)))"
proof -
  obtain sel1 where m: "is_any_dep_index_modified fs1 True (selected_script st1) = (modified, sel1)"
    using assms(4) by (cases "is_any_dep_index_modified fs1 True (selected_script st1)") simp
  from is_any_dep_index_modified_frame [OF m] obtain idx where
    s: "sel1 = (selected_script st1)\<lparr>dep_indices := idx\<rparr>" by blast
  have r: "set_selected_script n h fs1 (sel1\<lparr>dep_scripts := []\<rparr>) (sel1\<lparr>dep_scripts := []\<rparr>)
      = set_selected_script n h fs1 (selected_script st1) (selected_script st1)"
    unfolding s by (rule set_selected_script_self)
  have c: "filemon_check_stage n h fs1 st1 =
      (case set_selected_script n h fs1 (selected_script st1) (selected_script st1) of
         Inl e \<Rightarrow> Inl e
       | Inr (sel, evp) \<Rightarrow>
           Inr (st1\<lparr>selected_script := invalidate_all_scripts sel\<rparr>, 1, evp @ [RefreshChooser]))"
    using m r by (simp add: filemon_check_stage_def)
  have eq: "filemon_timer_cb n h fs st =
      (case set_selected_script n h fs1 (selected_script st1) (selected_script st1) of
         Inl e \<Rightarrow> Inl e
       | Inr (sel, evp) \<Rightarrow>
           Inr (st1\<lparr>selected_script := invalidate_all_scripts sel\<rparr>, fs1, 1,
                ev1 @ evp @ [RefreshChooser]))"
    using assms(1-3) c by (simp add: filemon_timer_cb_def split: sum.splits)
  have inv: "modified_time (invalidate_all_scripts sel) = 0
      \<and> (\<forall>kv\<in>set (dep_scripts (invalidate_all_scripts sel)). modified_time (snd kv) = 0)" for sel
    by (auto simp: invalidate_all_scripts_def invalidate_def)
  have res: "delay = 1 \<and> modified_time (selected_script st') = 0
      \<and> (\<forall>kv\<in>set (dep_scripts (selected_script st')). modified_time (snd kv) = 0)"
    if "filemon_timer_cb n h fs st = Inr (st', fs', delay, evs)" for st' fs' delay evs
  proof -
    from that eq obtain sel where
      "st' = st1\<lparr>selected_script := invalidate_all_scripts sel\<rparr>" "delay = 1"
      by (auto split: sum.splits)
    then show ?thesis using inv [of sel] by simp
  qed
  have ret: "\<exists>st' evs. filemon_timer_cb n h fs st = Inr (st', fs1, 1, evs)"
    if np: "\<forall>m ls raw. lines_of fs1 m = Some ls \<longrightarrow> raw \<in> set ls \<longrightarrow>
              \<not> sublist ''$pkgmodname'' raw"
  proof -
    obtain sel evp where
      "set_selected_script n h fs1 (selected_script st1) (selected_script st1) = Inr (sel, evp)"
      using set_selected_script_returns [OF np] by blast
    then show ?thesis using eq by simp
  qed
  show ?thesis
    using eq res ret by blast
qed

theorem manifest_modified_reparses_witness:
  "is_monitor_active st_reload \<and> has_selected_script st_reload
   \<and> filemon_trigger_stage fs_manifest st_reload = (True, st_reload, fs_manifest, [])
   \<and> fst (is_any_dep_index_modified fs_manifest True (selected_script st_reload)) = modified
   \<and> list_all (\<lambda>raw. \<not> sublist ''$pkgmodname'' raw)
         [''/reload reload($basename$)'', ''lib.py'', ''lib2.py'']
   \<and> filemon_timer_cb 2 posix_host fs_manifest st_reload =
       Inr (st_manifest, fs_manifest, 1,
            [DepProbe ''lib.py'' ''/t/lib.py'' True, DepProbe ''lib2.py'' ''/t/lib2.py'' True,
             RefreshChooser])
   \<and> modified_time (selected_script st_manifest) = 0
   \<and> list_all (\<lambda>kv. modified_time (snd kv) = 0) (dep_scripts (selected_script st_manifest))"
proof -
  have a: "is_monitor_active st_reload" "has_selected_script st_reload"
    by (simp_all add: is_monitor_active_def has_selected_script_def st_reload_def chooser_of_def
        sel_reload_def)
  have t: "filemon_trigger_stage fs_manifest st_reload = (True, st_reload, fs_manifest, [])"
    using st_reload_not_trigger_based(1) by (simp add: filemon_trigger_stage_def)
  have m: "fst (is_any_dep_index_modified fs_manifest True (selected_script st_reload)) = modified"
    by code_simp
  have l: "list_all (\<lambda>raw. \<not> sublist ''$pkgmodname'' raw)
         [''/reload reload($basename$)'', ''lib.py'', ''lib2.py'']"
    by code_simp
  have p: "\<forall>m ls raw. lines_of fs_manifest m = Some ls \<longrightarrow> raw \<in> set ls \<longrightarrow>
      \<not> sublist ''$pkgmodname'' raw"
    using l by (auto simp: fs_manifest_def split: if_splits)
  show ?thesis
    using manifest_modified_reparses [OF a t m, of 2 posix_host] a t m l p tick_manifest
    by (simp add: list_all_iff)
qed

subsection \<open>After a failed reload\<close>

lemma check_dep_scripts_paths:
  "check_dep_scripts h fs sel done todo = Inr (deps', changed, brk, evs) \<Longrightarrow>
   map (file_path \<circ> snd) deps' = map (file_path \<circ> snd) (done @ todo)"
proof (induction todo arbitrary: "done" deps' changed brk evs)
  case Nil
  then show ?case by simp
next
  case (Cons kd rest)
  obtain k d where kd: "kd = (k, d)" by (cases kd)
  from Cons.prems [unfolded kd] show ?case
  proof (cases rule: check_dep_scripts_Cons_cases)
    case (skip status d')
    have "file_path d' = file_path d"
      using skip(1) get_modification_status_path [of fs True d] by simp
    then show ?thesis using Cons.IH [OF skip(3)] kd by simp
  next
    case (fail d' evr)
    then show ?thesis using get_modification_status_modified [OF fail(1)] kd by simp
  next
    case (pass d' evr changed' evs')
    then show ?thesis
      using Cons.IH [OF pass(3)] get_modification_status_modified [OF pass(1)] kd by simp
  qed
qed

lemma check_dep_scripts_failed_entry:
  "check_dep_scripts h fs sel done todo = Inr (deps', changed, brk, evs) \<Longrightarrow>
   EvalSnippet p cmd False \<in> set evs \<Longrightarrow>
   \<exists>k d'. (k, d') \<in> set deps' \<and> file_path d' = p \<and> mtime_of fs p = Some (modified_time d')"
proof (induction todo arbitrary: "done" deps' changed brk evs)
  case Nil
  then show ?case by simp
next
  case (Cons kd rest)
  obtain k d where kd: "kd = (k, d)" by (cases kd)
  from Cons.prems(1) [unfolded kd] show ?case
  proof (cases rule: check_dep_scripts_Cons_cases)
    case (skip status d')
    then show ?thesis using Cons.IH [OF skip(3) Cons.prems(2)] by simp
  next
    case (fail d' evr)
    have "EvalSnippet p cmd False \<in> set evr" using Cons.prems(2) fail(7) by simp
    then have "p = file_path d'"
      using execute_reload_directive_snippets [OF fail(3)] by blast
    then show ?thesis
      using get_modification_status_modified [OF fail(1)] fail(4) by auto
  next
    case (pass d' evr changed' evs')
    have "EvalSnippet p cmd False \<notin> set evr"
      using pass(2) execute_reload_directive_snippets [of h _ d' True evr p cmd False]
      by (auto split: if_splits)
    then have "EvalSnippet p cmd False \<in> set evs'" using Cons.prems(2) pass(5) by simp
    then show ?thesis using Cons.IH [OF pass(3)] by simp
  qed
qed

lemma check_dep_scripts_no_retry:
  "check_dep_scripts h fs sel done todo = Inr (deps', changed, brk, evs) \<Longrightarrow>
   \<forall>kd\<in>set todo. file_path (snd kd) = p \<longrightarrow> mtime_of fs p = Some (modified_time (snd kd)) \<Longrightarrow>
   EvalSnippet p cmd b \<notin> set evs"
proof (induction todo arbitrary: "done" deps' changed brk evs)
  case Nil
  then show ?case by simp
next
  case (Cons kd rest)
  obtain k d where kd: "kd = (k, d)" by (cases kd)
  have cur: "file_path d = p \<Longrightarrow> get_modification_status fs True d = (not_modified, d)"
    using Cons.prems(2) kd get_modification_status_current [of fs d True] by simp
  have rest: "\<forall>kd\<in>set rest. file_path (snd kd) = p \<longrightarrow> mtime_of fs p = Some (modified_time (snd kd))"
    using Cons.prems(2) by simp
  from Cons.prems(1) [unfolded kd] show ?case
  proof (cases rule: check_dep_scripts_Cons_cases)
    case (skip status d')
    then show ?thesis using Cons.IH [OF skip(3) rest] by simp
  next
    case (fail d' evr)
    have "file_path d' \<noteq> p"
      using fail(1) cur get_modification_status_modified [OF fail(1)] by auto
    then show ?thesis
      using execute_reload_directive_snippets [OF fail(3)] fail(7) by auto
  next
    case (pass d' evr changed' evs')
    have "file_path d' \<noteq> p"
      using pass(1) cur get_modification_status_modified [OF pass(1)] by auto
    then have "EvalSnippet p cmd b \<notin> set evr"
      using pass(2) execute_reload_directive_snippets [of h _ d' True evr p cmd b]
      by (auto split: if_splits)
    then show ?thesis using Cons.IH [OF pass(3) rest] pass(5) by simp
  qed
qed

lemma filemon_check_stage_no_retry:
  assumes "filemon_check_stage n h fs st = Inr (st', delay, evs)"
    and "\<forall>kd\<in>set (dep_scripts (selected_script st)).
           file_path (snd kd) = p \<longrightarrow> mtime_of fs p = Some (modified_time (snd kd))"
  shows "EvalSnippet p cmd b \<notin> set evs"
proof -
  obtain mod_stat sel1 where m: "is_any_dep_index_modified fs True (selected_script st) = (mod_stat, sel1)"
    by (cases "is_any_dep_index_modified fs True (selected_script st)")
  from is_any_dep_index_modified_frame [OF m] have d1: "dep_scripts sel1 = dep_scripts (selected_script st)"
    by auto
  show ?thesis
  proof (cases "mod_stat = modified")
    case True
    with assms(1) m obtain sel3 evp where
      p: "set_selected_script n h fs (sel1\<lparr>dep_scripts := []\<rparr>) (sel1\<lparr>dep_scripts := []\<rparr>)
          = Inr (sel3, evp)"
      and "evs = evp @ [RefreshChooser]"
      by (auto simp: filemon_check_stage_def Let_def split: sum.splits)
    then show ?thesis using set_selected_script_events(4) [OF p] by simp
  next
    case False
    define sel2 where "sel2 = (if mod_stat = not_found \<and> dep_scripts sel1 \<noteq> []
                     then sel1\<lparr>dep_scripts := []\<rparr> else sel1)"
    have d2: "\<forall>kd\<in>set (dep_scripts sel2).
           file_path (snd kd) = p \<longrightarrow> mtime_of fs p = Some (modified_time (snd kd))"
      using assms(2) d1 by (simp add: sel2_def)
    from assms(1) m False obtain deps' ch brk evl where
      l: "check_dep_scripts h fs sel2 [] (dep_scripts sel2) = Inr (deps', ch, brk, evl)"
      by (auto simp: filemon_check_stage_def Let_def sel2_def split: sum.splits)
    have nl: "EvalSnippet p cmd b \<notin> set evl"
      using check_dep_scripts_no_retry [OF l d2] .
    show ?thesis
      using assms(1) m False l nl
      by (auto simp: filemon_check_stage_def Let_def sel2_def[symmetric]
          split: prod.splits if_splits dest!: execute_script_snippets)
  qed
qed

lemma filemon_check_stage_failed:
  assumes "filemon_check_stage n h fs st = Inr (st', delay, evs)"
    and "EvalSnippet p cmd False \<in> set evs"
    and "distinct (map (file_path \<circ> snd) (dep_scripts (selected_script st)))"
  shows "trigger_file (selected_script st') = trigger_file (selected_script st)
    \<and> b_keep_trigger_file (selected_script st') = b_keep_trigger_file (selected_script st)
    \<and> (\<forall>kd\<in>set (dep_scripts (selected_script st')).
           file_path (snd kd) = p \<longrightarrow> mtime_of fs p = Some (modified_time (snd kd)))"
proof -
  obtain mod_stat sel1 where m: "is_any_dep_index_modified fs True (selected_script st) = (mod_stat, sel1)"
    by (cases "is_any_dep_index_modified fs True (selected_script st)")
  from is_any_dep_index_modified_frame [OF m] obtain idx where
    s1: "sel1 = (selected_script st)\<lparr>dep_indices := idx\<rparr>" by blast
  have nm: "mod_stat \<noteq> modified"
  proof
    assume "mod_stat = modified"
    with assms(1) m obtain sel3 evp where
      p: "set_selected_script n h fs (sel1\<lparr>dep_scripts := []\<rparr>) (sel1\<lparr>dep_scripts := []\<rparr>)
          = Inr (sel3, evp)"
      and "evs = evp @ [RefreshChooser]"
      by (auto simp: filemon_check_stage_def Let_def split: sum.splits)
    then show False using assms(2) set_selected_script_events(4) [OF p] by simp
  qed
  define sel2 where "sel2 = (if mod_stat = not_found \<and> dep_scripts sel1 \<noteq> []
                     then sel1\<lparr>dep_scripts := []\<rparr> else sel1)"
  from assms(1) m nm obtain deps' ch brk evl where
    l: "check_dep_scripts h fs sel2 [] (dep_scripts sel2) = Inr (deps', ch, brk, evl)"
    by (auto simp: filemon_check_stage_def Let_def sel2_def split: sum.splits)
  have brk: brk
  proof (rule ccontr)
    assume nb: "\<not> brk"
    then have "\<not> list_ex is_reload_failure evl" using check_dep_scripts_events [OF l] by simp
    then have "\<not> list_ex is_reload_failure evs"
      using assms(1) m nm l nb
      by (auto simp: filemon_check_stage_def Let_def sel2_def[symmetric]
          split: prod.splits if_splits dest!: execute_script_events)
    then show False using assms(2) by (auto simp: list_ex_iff)
  qed
  have st': "st' = st\<lparr>selected_script := sel2\<lparr>dep_scripts := deps'\<rparr>\<rparr>" and ev: "evs = evl"
    using assms(1) m nm l brk by (simp_all add: filemon_check_stage_def Let_def sel2_def[symmetric])
  have dist2: "distinct (map (file_path \<circ> snd) (dep_scripts sel2))"
    using assms(3) by (simp add: sel2_def s1)
  have paths: "map (file_path \<circ> snd) deps' = map (file_path \<circ> snd) (dep_scripts sel2)"
    using check_dep_scripts_paths [OF l] by simp
  from check_dep_scripts_failed_entry [OF l] assms(2) ev obtain k d' where
    e: "(k, d') \<in> set deps'" "file_path d' = p" "mtime_of fs p = Some (modified_time d')"
    by blast
  have inj: "inj_on (file_path \<circ> snd) (set deps')"
    using dist2 paths by (metis distinct_map)
  have "\<forall>kd\<in>set deps'. file_path (snd kd) = p \<longrightarrow> kd = (k, d')"
  proof (intro ballI impI)
    fix kd assume "kd \<in> set deps'" "file_path (snd kd) = p"
    then have "(file_path \<circ> snd) kd = (file_path \<circ> snd) (k, d')" using e(2) by simp
    then show "kd = (k, d')" using inj_onD [OF inj _ \<open>kd \<in> set deps'\<close> e(1)] by blast
  qed
  then have "\<forall>kd\<in>set deps'. file_path (snd kd) = p \<longrightarrow> mtime_of fs p = Some (modified_time (snd kd))"
    using e(3) by auto
  then show ?thesis
    by (simp add: st' sel2_def s1)
qed

text \<open>
  C4, counterexample.  On \<^verbatim>\<open>fs_reload\<close> the dependency \<^verbatim>\<open>/t/lib.py\<close> has changed and its
  reload snippet fails: the first tick is aborted.  The disk stays as it is, and the second
  tick does nothing at all: the snippet is not evaluated again.
\<close>

theorem failed_reload_is_forgotten:
  "filemon_timer_cb 2 posix_host fs_reload st_reload =
     Inr (st_reload1, fs_reload, 500,
          [EvalSnippet ''/t/lib.py'' ''reload(lib)'' False, Msg ReloadWarning ''/t/lib.py''])
   \<and> filemon_timer_cb 2 posix_host fs_reload st_reload1 = Inr (st_reload1, fs_reload, 500, [])"
  by (simp add: tick_reload_first tick_reload_second)

text \<open>
  C4, amended.  The probe that finds a dependency modified stores its new time before the
  reload snippet runs.  So when a tick is aborted because the snippet of the dependency \<^verbatim>\<open>p\<close>
  failed, the tick that follows on the disk the first one left does not evaluate any snippet
  for \<^verbatim>\<open>p\<close>: the failed reload is not retried on the next tick.  (Each dependency is one
  entry of the map, so the paths of the entries are distinct.)
\<close>

theorem failed_reload_not_retried:
  assumes "distinct (map (file_path \<circ> snd) (dep_scripts (selected_script st)))"
    and "filemon_timer_cb n h fs st = Inr (st1, fs1, delay1, evs1)"
    and "EvalSnippet p cmd False \<in> set evs1"
    and "filemon_timer_cb n h fs1 st1 = Inr (st2, fs2, delay2, evs2)"
  shows "EvalSnippet p cmd' b \<notin> set evs2"
proof -
  have act: "\<not> (\<not> is_monitor_active st \<or> \<not> has_selected_script st)"
    using assms(2,3) by (auto simp: filemon_timer_cb_def split: if_splits)
  obtain go sta fsa eva where t: "filemon_trigger_stage fs st = (go, sta, fsa, eva)"
    by (cases "filemon_trigger_stage fs st")
  have go: go
    using assms(2,3) act t filemon_trigger_stage_events [OF t]
    by (cases go) (auto simp: filemon_timer_cb_def list_ex_iff)
  from assms(2) act t go obtain evb where
    c: "filemon_check_stage n h fsa sta = Inr (st1, delay1, evb)" and e: "evs1 = eva @ evb"
    and f1: "fs1 = fsa"
    by (auto simp: filemon_timer_cb_def split: sum.splits)
  have "EvalSnippet p cmd False \<notin> set eva"
    using t by (auto simp: filemon_trigger_stage_def Let_def split: if_splits prod.splits)
  then have fail: "EvalSnippet p cmd False \<in> set evb" using assms(3) e by simp
  have da: "dep_scripts (selected_script sta) = dep_scripts (selected_script st)"
    using t by (auto simp: filemon_trigger_stage_def Let_def invalidate_def split: if_splits prod.splits)
  note cs = filemon_check_stage_failed [OF c fail, unfolded da, OF assms(1)]
  show ?thesis
  proof (cases "\<not> is_monitor_active st1 \<or> \<not> has_selected_script st1")
    case True
    then show ?thesis using assms(4) by (auto simp: filemon_timer_cb_def)
  next
    case act1: False
    obtain go2 stb fsb evc where t2: "filemon_trigger_stage fs1 st1 = (go2, stb, fsb, evc)"
      by (cases "filemon_trigger_stage fs1 st1")
    have nc: "EvalSnippet p cmd' b \<notin> set evc"
      using t2 by (auto simp: filemon_trigger_stage_def Let_def split: if_splits prod.splits)
    show ?thesis
    proof (cases go2)
      case False
      then show ?thesis using assms(4) act1 t2 nc by (auto simp: filemon_timer_cb_def)
    next
      case True
      have nt: "\<not> trigger_based (selected_script st)"
      proof
        assume tb: "trigger_based (selected_script st)"
        obtain ts tf where g: "get_modification_status fs True (trigger_file (selected_script st)) = (ts, tf)"
          by (cases "get_modification_status fs True (trigger_file (selected_script st))")
        have tsm: "ts = modified" using t go tb g
          by (auto simp: filemon_trigger_stage_def Let_def split: if_splits)
        note gm = get_modification_status_modified [OF g [unfolded tsm]]
        have ta: "trigger_file (selected_script sta) = tf"
          "b_keep_trigger_file (selected_script sta) = b_keep_trigger_file (selected_script st)"
          "fsa = (if b_keep_trigger_file (selected_script st) then fs else qunlink (file_path tf) fs)"
          using t tb g tsm
          by (auto simp: filemon_trigger_stage_def Let_def invalidate_def split: if_splits)
        have t1: "trigger_file (selected_script st1) = tf"
          "b_keep_trigger_file (selected_script st1) = b_keep_trigger_file (selected_script st)"
          using cs ta by simp_all
        have tb1: "trigger_based (selected_script st1)"
          using tb t1 gm by (simp add: trigger_based_def fi_empty_def)
        have "fst (get_modification_status fs1 True tf) \<noteq> modified"
          using gm f1 ta(3)
          by (auto simp: get_modification_status_def qunlink_def)
        then have "\<not> go2"
          using t2 tb1 t1
          by (auto simp: filemon_trigger_stage_def Let_def split: if_splits prod.splits)
        then show False using True by simp
      qed
      have fa: "fsa = fs" and "sta = st"
        using t nt by (auto simp: filemon_trigger_stage_def Let_def)
      have nt1: "\<not> trigger_based (selected_script st1)"
        using nt cs \<open>sta = st\<close> by (simp add: trigger_based_def)
      then have b2: "stb = st1" "fsb = fs1" "evc = []"
        using t2 by (auto simp: filemon_trigger_stage_def Let_def)
      from assms(4) act1 t2 True b2 obtain evd where
        c2: "filemon_check_stage n h fs1 st1 = Inr (st2, delay2, evd)" and e2: "evs2 = evd"
        by (auto simp: filemon_timer_cb_def split: sum.splits)
      have pre: "\<forall>kd\<in>set (dep_scripts (selected_script st1)).
           file_path (snd kd) = p \<longrightarrow> mtime_of fs1 p = Some (modified_time (snd kd))"
        using cs f1 fa by simp
      show ?thesis using filemon_check_stage_no_retry [OF c2 pre] e2 by simp
    qed
  qed
qed

theorem failed_reload_not_retried_witness:
  "distinct (map (file_path \<circ> snd) (dep_scripts (selected_script st_reload)))
   \<and> filemon_timer_cb 2 posix_host fs_reload_main st_reload =
       Inr (st_reload1, fs_reload_main, 500,
            [EvalSnippet ''/t/lib.py'' ''reload(lib)'' False, Msg ReloadWarning ''/t/lib.py''])
   \<and> EvalSnippet ''/t/lib.py'' ''reload(lib)'' False
       \<in> set [EvalSnippet ''/t/lib.py'' ''reload(lib)'' False, Msg ReloadWarning ''/t/lib.py'']
   \<and> filemon_timer_cb 2 posix_host fs_reload_main st_reload1 =
       Inr (st_reload2, fs_reload_main, 500, [CompileFile ''/t/a.py'' True])
   \<and> EvalSnippet ''/t/lib.py'' ''reload(lib)'' False \<notin> set [CompileFile ''/t/a.py'' True]"
proof -
  have d: "distinct (map (file_path \<circ> snd) (dep_scripts (selected_script st_reload)))"
    by (simp add: st_reload_def chooser_of_def sel_reload_def)
  have e: "EvalSnippet ''/t/lib.py'' ''reload(lib)'' False
       \<in> set [EvalSnippet ''/t/lib.py'' ''reload(lib)'' False, Msg ReloadWarning ''/t/lib.py'']"
    by simp
  show ?thesis
    using failed_reload_not_retried [OF d tick_reload_main_first e tick_reload_main_second,
        of "''reload(lib)''" False]
      d tick_reload_main_first tick_reload_main_second
    by simp
qed

subsection \<open>The main script among the dependencies\<close>

lemma check_dep_scripts_keys:
  "check_dep_scripts h fs sel done todo = Inr (deps', changed, brk, evs) \<Longrightarrow>
   map fst deps' = map fst (done @ todo)"
proof (induction todo arbitrary: "done" deps' changed brk evs)
  case Nil
  then show ?case by simp
next
  case (Cons kd rest)
  obtain k d where kd: "kd = (k, d)" by (cases kd)
  from Cons.prems [unfolded kd] show ?case
  proof (cases rule: check_dep_scripts_Cons_cases)
    case (skip status d')
    then show ?thesis using Cons.IH [OF skip(3)] kd by simp
  next
    case (fail d' evr)
    then show ?thesis using kd by simp
  next
    case (pass d' evr changed' evs')
    then show ?thesis using Cons.IH [OF pass(3)] kd by simp
  qed
qed

lemma execute_reload_directive_no_refresh:
  "execute_reload_directive h sel d = Inr (ok, evs) \<Longrightarrow> RefreshChooser \<notin> set evs"
  by (auto simp: execute_reload_directive_def Let_def split: option.splits sum.splits)

lemma execute_script_no_refresh:
  "execute_script h fs st s u = (ok, s', st', evs) \<Longrightarrow> RefreshChooser \<notin> set evs"
  by (auto simp: execute_script_def execute_script_sync_def Let_def activate_monitor_def
      split: option.splits if_splits)

lemma check_dep_scripts_no_refresh:
  "check_dep_scripts h fs sel done todo = Inr (deps', changed, brk, evs) \<Longrightarrow>
   RefreshChooser \<notin> set evs"
proof (induction todo arbitrary: "done" deps' changed brk evs)
  case Nil
  then show ?case by simp
next
  case (Cons kd rest)
  obtain k d where kd: "kd = (k, d)" by (cases kd)
  from Cons.prems [unfolded kd] show ?case
  proof (cases rule: check_dep_scripts_Cons_cases)
    case (skip status d')
    then show ?thesis using Cons.IH by blast
  next
    case (fail d' evr)
    then show ?thesis using execute_reload_directive_no_refresh [OF fail(3)] by simp
  next
    case (pass d' evr changed' evs')
    have "RefreshChooser \<notin> set evr"
      using pass(2) execute_reload_directive_no_refresh [of h _ d' True evr]
      by (auto split: if_splits)
    then show ?thesis using pass Cons.IH [OF pass(3)] by simp
  qed
qed

lemma invalidate_all_scripts_frame [simp]:
  "dep_keys (invalidate_all_scripts s) = dep_keys s"
  "file_path (invalidate_all_scripts s) = file_path s"
  by (simp_all add: dep_keys_def invalidate_all_scripts_def invalidate_def image_image)

lemma execute_script_frame:
  "execute_script h fs st (s::active_script_info_t) u = (ok, s', st', evs) \<Longrightarrow>
   file_path s' = file_path s \<and> dep_scripts s' = dep_scripts s"
  by (auto simp: execute_script_def execute_script_sync_def Let_def activate_monitor_def
      split: option.splits if_splits)

lemma filemon_trigger_stage_frame:
  "filemon_trigger_stage fs st = (go, st1, fs1, ev1) \<Longrightarrow>
   dep_scripts (selected_script st1) = dep_scripts (selected_script st)
   \<and> RefreshChooser \<notin> set ev1 \<and> recorded_paths ev1 = []"
  by (auto simp: filemon_trigger_stage_def Let_def invalidate_def
      split: if_splits prod.splits)

text \<open>
  A tick either parses again, and then refreshes the chooser and leaves as keys the paths
  recorded by that parse, or it does not refresh the chooser and adds no key.
\<close>

lemma filemon_check_stage_keys:
  assumes run: "filemon_check_stage n h fs st = Inr (st', delay, evs)"
  shows "(RefreshChooser \<in> set evs \<and> dep_keys (selected_script st') = set (recorded_paths evs))
    \<or> (RefreshChooser \<notin> set evs \<and> dep_keys (selected_script st') \<subseteq> dep_keys (selected_script st))"
proof -
  obtain mod_stat sel1 where
    m: "is_any_dep_index_modified fs True (selected_script st) = (mod_stat, sel1)"
    by (cases "is_any_dep_index_modified fs True (selected_script st)")
  from is_any_dep_index_modified_frame [OF m] obtain idx where
    s1: "sel1 = (selected_script st)\<lparr>dep_indices := idx\<rparr>" by blast
  show ?thesis
  proof (cases "mod_stat = modified")
    case True
    from run m True obtain sel3 evp where
      r: "set_selected_script n h fs (sel1\<lparr>dep_scripts := []\<rparr>) (sel1\<lparr>dep_scripts := []\<rparr>)
          = Inr (sel3, evp)"
      and st': "st' = st\<lparr>selected_script := invalidate_all_scripts sel3\<rparr>"
      and ev: "evs = evp @ [RefreshChooser]"
      by (auto simp: filemon_check_stage_def Let_def split: sum.splits)
    show ?thesis
      using set_selected_script_probes [OF r] by (simp add: st' ev)
  next
    case False
    define sel2 where "sel2 = (if mod_stat = not_found \<and> dep_scripts sel1 \<noteq> []
                     then sel1\<lparr>dep_scripts := []\<rparr> else sel1)"
    have p2: "dep_keys sel2 \<subseteq> dep_keys (selected_script st)"
      by (auto simp: sel2_def s1 dep_keys_def)
    from run m False obtain deps' ch brk evl where
      l: "check_dep_scripts h fs sel2 [] (dep_scripts sel2) = Inr (deps', ch, brk, evl)"
      by (auto simp: filemon_check_stage_def Let_def sel2_def split: sum.splits)
    note nl = check_dep_scripts_no_refresh [OF l]
    define sel3 where "sel3 = sel2\<lparr>dep_scripts := deps'\<rparr>"
    have p3: "dep_keys sel3 \<subseteq> dep_keys (selected_script st)"
      using p2 check_dep_scripts_keys [OF l]
      by (simp add: sel3_def dep_keys_def flip: set_map)
    show ?thesis
    proof (cases brk)
      case True
      then have "st' = st\<lparr>selected_script := sel3\<rparr>" "evs = evl"
        using run m False l
        by (simp_all add: filemon_check_stage_def Let_def sel2_def [symmetric] sel3_def)
      then show ?thesis using p3 nl by simp
    next
      case nb: False
      obtain ms sel4 where g: "get_modification_status fs True sel3 = (ms, sel4)"
        by (cases "get_modification_status fs True sel3")
      have p4: "dep_keys sel4 = dep_keys sel3"
        using g by (auto simp: get_modification_status_def dep_keys_def split: option.splits if_splits)
      show ?thesis
      proof (cases "ms = not_found")
        case True
        then have "st' = clear_selected_script (st\<lparr>selected_script := sel4\<rparr>)"
          "evs = evl @ [Msg NoLongerExists (file_path sel4)]"
          using run m False l nb g
          by (simp_all add: filemon_check_stage_def Let_def sel2_def [symmetric] sel3_def [symmetric])
        then show ?thesis using nl
          by (simp add: clear_selected_script_def clear_active_def activate_monitor_def dep_keys_def)
      next
        case nf: False
        show ?thesis
        proof (cases "ch \<or> ms = modified")
          case True
          obtain ok sel5 stx evx where
            x: "execute_script h fs (st\<lparr>selected_script := sel4\<rparr>) sel4 (opt_with_undo st \<noteq> 0)
                = (ok, sel5, stx, evx)"
            by (cases "execute_script h fs (st\<lparr>selected_script := sel4\<rparr>) sel4 (opt_with_undo st \<noteq> 0)")
          have "st' = stx\<lparr>selected_script := sel5\<rparr>" "evs = evl @ evx"
            using run m False l nb g nf True x
            by (simp_all add: filemon_check_stage_def Let_def sel2_def [symmetric] sel3_def [symmetric])
          then show ?thesis
            using execute_script_frame [OF x] execute_script_no_refresh [OF x] p4 p3 nl
            by (simp add: dep_keys_def)
        next
          case False
          then have "st' = st\<lparr>selected_script := sel4\<rparr>" "evs = evl"
            using run m \<open>mod_stat \<noteq> modified\<close> l nb g nf
            by (simp_all add: filemon_check_stage_def Let_def sel2_def [symmetric] sel3_def [symmetric])
          then show ?thesis using p4 p3 nl by simp
        qed
      qed
    qed
  qed
qed

lemma filemon_timer_cb_keys:
  assumes run: "filemon_timer_cb n h fs st = Inr (st', fs', delay, evs)"
  shows "(RefreshChooser \<in> set evs \<and> dep_keys (selected_script st') = set (recorded_paths evs))
    \<or> (RefreshChooser \<notin> set evs \<and> dep_keys (selected_script st') \<subseteq> dep_keys (selected_script st))"
proof (cases "\<not> is_monitor_active st \<or> \<not> has_selected_script st")
  case True
  then show ?thesis using run by (auto simp: filemon_timer_cb_def)
next
  case active: False
  obtain go st1 fs1 ev1 where t: "filemon_trigger_stage fs st = (go, st1, fs1, ev1)"
    by (cases "filemon_trigger_stage fs st")
  note tf = filemon_trigger_stage_frame [OF t]
  have k1: "dep_keys (selected_script st1) = dep_keys (selected_script st)"
    using tf by (simp add: dep_keys_def)
  show ?thesis
  proof (cases go)
    case False
    then have "st' = st1" "evs = ev1" using run active t by (auto simp: filemon_timer_cb_def)
    then show ?thesis using k1 tf by simp
  next
    case True
    from run active t True obtain ev2 where
      c: "filemon_check_stage n h fs1 st1 = Inr (st', delay, ev2)" and e: "evs = ev1 @ ev2"
      by (auto simp: filemon_timer_cb_def split: sum.splits)
    show ?thesis using filemon_check_stage_keys [OF c] k1 tf e by auto
  qed
qed

lemma run_actions_keys:
  assumes "dep_keys (selected_script st) \<subseteq> set (recorded_paths log)"
    and "run_actions n h acts st log = Inr (st', log')"
  shows "dep_keys (selected_script st') \<subseteq> set (recorded_paths log')"
  using assms
proof (induction acts arbitrary: st log)
  case Nil
  then show ?case by simp
next
  case (Cons af rest)
  obtain a fs where af: "af = (a, fs)" by (cases af)
  show ?case
  proof (cases a)
    case (SetActive script)
    from Cons.prems(2) af SetActive obtain sel evs where
      r: "set_selected_script n h fs script (selected_script st) = Inr (sel, evs)"
      and rr: "run_actions n h rest (st\<lparr>selected_script := sel\<rparr>) evs = Inr (st', log')"
      by (auto split: sum.splits)
    show ?thesis
      by (rule Cons.IH [OF _ rr]) (use set_selected_script_probes [OF r] in simp)
  next
    case Tick
    from Cons.prems(2) af Tick obtain st1 fs1 d1 e1 where
      r: "filemon_timer_cb n h fs st = Inr (st1, fs1, d1, e1)"
      and rr: "run_actions n h rest st1 (if RefreshChooser \<in> set e1 then e1 else log) = Inr (st', log')"
      by (auto split: sum.splits)
    show ?thesis
      by (rule Cons.IH [OF _ rr]) (use filemon_timer_cb_keys [OF r] Cons.prems(1) in auto)
  qed
qed

text \<open>
  Each path recorded by a parse is what a manifest line of the disk was resolved to, and a file
  of the disk.
\<close>

lemma parse_line_resolved:
  assumes rec: "\<And>c s b s' e. rec c s = Inr (b, s', e) \<Longrightarrow> p \<in> set (recorded_paths e) \<Longrightarrow> Q"
    and line: "\<And>c s. expand_file_name h s c (trim2 raw) = Inr p \<Longrightarrow> mtime_of fs p \<noteq> None \<Longrightarrow> Q"
    and run: "parse_line h fs rec raw ctx sel = Inr (ctx', sel', evs)"
    and p: "p \<in> set (recorded_paths evs)"
  shows Q
proof -
  define line where "line = trim2 raw"
  show ?thesis
  proof (cases "line = [] \<or> take 2 line = ''//'' \<or> hd line = CHR ''#'' \<or> hd line = CHR '';''")
    case True
    then show ?thesis using run p by (simp add: parse_line_def Let_def line_def [symmetric])
  next
    case plain: False
    show ?thesis
    proof (cases "get_value line ''/pkgbase'' 8 = None \<and> get_value line ''/reload'' 7 = None
        \<and> get_value line ''/triggerfile'' 12 = None")
      case False
      then show ?thesis using run p plain
        by (auto simp: parse_line_def Let_def line_def [symmetric] refresh_def
            split: option.splits sum.splits if_splits)
    next
      case True
      define ctx1 where "ctx1 = ctx\<lparr>ctx_script_file := line\<rparr>"
      from True plain run obtain line' where e: "expand_file_name h sel ctx1 line = Inr line'"
        by (auto simp: parse_line_def Let_def line_def [symmetric] ctx1_def split: sum.splits)
      show ?thesis
      proof (cases "mtime_of fs line'")
        case None
        then show ?thesis using True plain run e p
          by (auto simp: parse_line_def Let_def line_def [symmetric] ctx1_def [symmetric])
      next
        case (Some t)
        define d where "d = \<lparr>file_path = line', modified_time = t,
                              reload_cmd = ctx_reload_cmd ctx1, pkg_base = ctx_pkg_base ctx1\<rparr>"
        define sel1 where "sel1 = sel\<lparr>dep_scripts := AList.update line' d (dep_scripts sel)\<rparr>"
        from True plain run e Some obtain b e2 where
          r: "rec (ctx1\<lparr>ctx_script_file := line', ctx_main_file := False\<rparr>) sel1 = Inr (b, sel', e2)"
          and ev: "evs = DepProbe line line' True # e2"
          by (auto simp: parse_line_def Let_def line_def [symmetric] ctx1_def [symmetric]
              d_def sel1_def split: sum.splits)
        show ?thesis
        proof (cases "p = line'")
          case True
          then show ?thesis using line [of sel ctx1] e Some by (simp add: line_def)
        next
          case False
          then have "p \<in> set (recorded_paths e2)" using p ev by simp
          then show ?thesis using rec [OF r] by simp
        qed
      qed
    qed
  qed
qed

lemma parse_lines_resolved:
  assumes step: "\<And>raw c s c' s' e. raw \<in> set ls \<Longrightarrow> step raw c s = Inr (c', s', e) \<Longrightarrow>
                   p \<in> set (recorded_paths e) \<Longrightarrow> Q"
    and run: "parse_lines step ls ctx sel = Inr (ctx', sel', evs)"
    and p: "p \<in> set (recorded_paths evs)"
  shows Q
  using assms
proof (induction ls arbitrary: ctx sel evs)
  case Nil
  then show ?case by simp
next
  case (Cons raw rest)
  from Cons.prems(2) obtain c1 s1 e1 e2 where
    1: "step raw ctx sel = Inr (c1, s1, e1)"
    and 2: "parse_lines step rest c1 s1 = Inr (ctx', sel', e2)" and 3: "evs = e1 @ e2"
    by (auto split: sum.splits)
  from Cons.prems(3) 3 consider "p \<in> set (recorded_paths e1)" | "p \<in> set (recorded_paths e2)"
    by auto
  then show ?case
  proof cases
    case 1
    then show ?thesis using Cons.prems(1) [OF _ \<open>step raw ctx sel = Inr (c1, s1, e1)\<close>] by simp
  next
    case 2
    show ?thesis
    proof (rule Cons.IH [OF _ \<open>parse_lines step rest c1 s1 = Inr (ctx', sel', e2)\<close> 2])
      fix r c s c' s' e
      assume "r \<in> set rest" "step r c s = Inr (c', s', e)" "p \<in> set (recorded_paths e)"
      then show Q using Cons.prems(1) [of r c s c' s' e] by simp
    qed
  qed
qed

lemma parse_deps_for_script_resolved:
  assumes "parse_deps_for_script n h fs ctx sel = Inr (b, sel', evs)"
    and "p \<in> set (recorded_paths evs)"
  shows "\<exists>m ls raw c s. lines_of fs m = Some ls \<and> raw \<in> set ls
           \<and> expand_file_name h s c (trim2 raw) = Inr p \<and> mtime_of fs p \<noteq> None"
  using assms
proof (induction n arbitrary: ctx sel b sel' evs)
  case 0
  then show ?case by simp
next
  case (Suc n)
  show ?case
  proof (cases "open_dep_file fs (ctx_script_file ctx)")
    case None
    then show ?thesis using Suc.prems by simp
  next
    case (Some a)
    obtain dep_file ls where a: "a = (dep_file, ls)" by (cases a)
    have l: "lines_of fs dep_file = Some ls"
      using Some a by (simp add: open_dep_file_lines)
    from Suc.prems(1) Some a obtain ctx2 where
      r: "parse_lines (parse_line h fs (parse_deps_for_script n h fs)) ls
            (ctx\<lparr>ctx_base_dir := qdirname h dep_file\<rparr>) (snd (add_dep_index fs dep_file sel))
          = Inr (ctx2, sel', evs)"
      by (auto simp: Let_def split: sum.splits)
    show ?thesis
    proof (rule parse_lines_resolved [OF _ r Suc.prems(2)])
      fix raw c s c' s' e
      assume raw: "raw \<in> set ls"
        and pl: "parse_line h fs (parse_deps_for_script n h fs) raw c s = Inr (c', s', e)"
        and pe: "p \<in> set (recorded_paths e)"
      show "\<exists>m ls raw c s. lines_of fs m = Some ls \<and> raw \<in> set ls
           \<and> expand_file_name h s c (trim2 raw) = Inr p \<and> mtime_of fs p \<noteq> None"
      proof (rule parse_line_resolved [OF _ _ pl pe])
        show "\<And>c s b s' e. parse_deps_for_script n h fs c s = Inr (b, s', e) \<Longrightarrow>
            p \<in> set (recorded_paths e) \<Longrightarrow>
            \<exists>m ls raw c s. lines_of fs m = Some ls \<and> raw \<in> set ls
              \<and> expand_file_name h s c (trim2 raw) = Inr p \<and> mtime_of fs p \<noteq> None"
          by (rule Suc.IH)
        show "\<And>c s. expand_file_name h s c (trim2 raw) = Inr p \<Longrightarrow> mtime_of fs p \<noteq> None \<Longrightarrow>
            \<exists>m ls raw c s. lines_of fs m = Some ls \<and> raw \<in> set ls
              \<and> expand_file_name h s c (trim2 raw) = Inr p \<and> mtime_of fs p \<noteq> None"
          using l raw by blast
      qed
    qed
  qed
qed

lemma set_selected_script_resolved:
  assumes "set_selected_script n h fs script sel = Inr (sel', evs)"
    and "p \<in> set (recorded_paths evs)"
  shows "\<exists>m ls raw c s. lines_of fs m = Some ls \<and> raw \<in> set ls
           \<and> expand_file_name h s c (trim2 raw) = Inr p \<and> mtime_of fs p \<noteq> None"
proof -
  from assms(1) obtain b ctx where
    "parse_deps_for_script n h fs ctx (assign_script script sel) = Inr (b, sel', evs)"
    by (auto simp: set_selected_script_def Let_def split: sum.splits)
  then show ?thesis using assms(2) by (rule parse_deps_for_script_resolved)
qed

lemma select_loop:
  "set_selected_script 3 posix_host fs_loop scr_a sel0 =
     Inr (sel_loop, [DepProbe ''a.py'' ''/t/a.py'' True, DepProbe ''a.py'' ''/t/a.py'' True,
                     DepProbe ''a.py'' ''/t/a.py'' True])"
  by code_simp

lemma run_example:
  "run_actions 2 posix_host [(SetActive scr_a, fs_pkg), (Tick, fs_manifest)] (chooser_of sel0) []
   = Inr (st_manifest,
          [DepProbe ''lib.py'' ''/t/lib.py'' True, DepProbe ''lib2.py'' ''/t/lib2.py'' True,
           RefreshChooser])"
  by code_simp

text \<open>
  A manifest that names its own script: however many files the process can open (at least
  one), the parser returns, and it has recorded the main script as a dependency.
\<close>

lemma self_naming_manifest_records_main:
  "\<exists>sel' evs. set_selected_script (Suc n) posix_host fs_loop scr_a sel0 = Inr (sel', evs)
      \<and> file_path sel' = ''/t/a.py'' \<and> has_dep sel' ''/t/a.py'' \<noteq> None"
proof -
  have np: "\<forall>m ls raw. lines_of fs_loop m = Some ls \<longrightarrow> raw \<in> set ls \<longrightarrow>
      \<not> sublist ''$pkgmodname'' raw"
  proof -
    have "\<not> sublist ''$pkgmodname'' ''a.py''" by code_simp
    then show ?thesis by (auto simp: fs_loop_def split: if_splits)
  qed
  define ctx where "ctx = \<lparr>ctx_script_file = ''/t/a.py'', ctx_main_file = True,
                      ctx_base_dir = [], ctx_pkg_base = [], ctx_reload_cmd = []\<rparr>"
  define sel1 where "sel1 = snd (add_dep_index fs_loop ''/t/a.py.deps.qscripts''
                                   (assign_script scr_a sel0))"
  define ctx1 where "ctx1 = ctx\<lparr>ctx_base_dir := ''/t'', ctx_script_file := ''a.py''\<rparr>"
  define sel2 where "sel2 = sel1\<lparr>dep_scripts := AList.update ''/t/a.py''
      \<lparr>file_path = ''/t/a.py'', modified_time = 1, reload_cmd = [], pkg_base = []\<rparr>
      (dep_scripts sel1)\<rparr>"
  obtain b s e where rec: "parse_deps_for_script n posix_host fs_loop
      (ctx1\<lparr>ctx_script_file := ''/t/a.py'', ctx_main_file := False\<rparr>) sel2 = Inr (b, s, e)"
    using parse_deps_for_script_returns [OF np] by (metis prod_cases3)
  have o: "open_dep_file fs_loop ''/t/a.py'' = Some (''/t/a.py.deps.qscripts'', [''a.py''])"
    by (simp add: open_dep_file_def fs_loop_def)
  have d: "qdirname posix_host ''/t/a.py.deps.qscripts'' = ''/t''"
    by (simp add: posix_host_def posix_dirname_def)
  have x: "expand_file_name posix_host sel1 ctx1 ''a.py'' = Inr ''/t/a.py''"
    by (simp add: expand_file_name_def expand_string_def regex_replace_no_dollar posix_host_def
        posix_abs_def ctx1_def)
  have m: "mtime_of fs_loop ''/t/a.py'' = Some 1"
    by (simp add: fs_loop_def)
  have l: "parse_line posix_host fs_loop (parse_deps_for_script n posix_host fs_loop) ''a.py''
      (ctx\<lparr>ctx_base_dir := ''/t''\<rparr>) sel1 = Inr (ctx1, s, DepProbe ''a.py'' ''/t/a.py'' True # e)"
    using x m rec
    by (simp add: parse_line_def trim2_def get_value_def Let_def ctx1_def sel2_def ctx_def)
  have "parse_deps_for_script (Suc n) posix_host fs_loop ctx (assign_script scr_a sel0)
      = Inr (True, s, DepProbe ''a.py'' ''/t/a.py'' True # e)"
    using o d l by (simp add: Let_def ctx_def sel1_def)
  then have r: "set_selected_script (Suc n) posix_host fs_loop scr_a sel0
      = Inr (s, DepProbe ''a.py'' ''/t/a.py'' True # e)"
    by (simp add: set_selected_script_def ctx_def scr_a_def)
  have "file_path s = ''/t/a.py''" "''/t/a.py'' \<in> dep_keys s"
    using set_selected_script_probes [OF r] by (simp_all add: scr_a_def)
  then show ?thesis using r by (simp add: has_dep_None)
qed

text \<open>
  C1, counterexample.  On \<^verbatim>\<open>fs_loop\<close> the manifest of \<^verbatim>\<open>/t/a.py\<close> names \<^verbatim>\<open>a.py\<close>, the main
  script itself.  Selecting \<^verbatim>\<open>/t/a.py\<close> there returns (the parser opens the manifest once
  more at each level, until no file can be opened), and the dependency map of the active
  script \<^verbatim>\<open>/t/a.py\<close> has the key \<^verbatim>\<open>/t/a.py\<close>: with three files to open, and with any other
  number but none.
\<close>

theorem main_script_recorded_as_dependency:
  "set_selected_script 3 posix_host fs_loop scr_a sel0 =
     Inr (sel_loop, [DepProbe ''a.py'' ''/t/a.py'' True, DepProbe ''a.py'' ''/t/a.py'' True,
                     DepProbe ''a.py'' ''/t/a.py'' True])
   \<and> file_path sel_loop = ''/t/a.py''
   \<and> has_dep sel_loop ''/t/a.py'' \<noteq> None
   \<and> (\<forall>n. \<exists>sel' evs. set_selected_script (Suc n) posix_host fs_loop scr_a sel0 = Inr (sel', evs)
         \<and> file_path sel' = ''/t/a.py'' \<and> has_dep sel' ''/t/a.py'' \<noteq> None)"
  using select_loop self_naming_manifest_records_main
  by (simp add: sel_loop_def has_dep_def)

text \<open>
  C1, amended.  The dependency map holds the path of the main script only if a dependency line
  of the most recent parse (the last selection, or the last tick that found a manifest
  modified) was resolved to that path and the path was found on the disk.  Precisely: run any
  sequence of selections and ticks that returns, from a chooser whose keys are among the paths
  recorded so far (an empty map, say); then the keys of the chooser reached are among the paths
  recorded by the most recent parse, and so is the path of the main script if it is a key.
  Directly after a selection the keys are exactly the paths recorded by its parse, each of
  them what a manifest line of the disk was resolved to and a file of the disk; so the main
  script is a key then exactly when some line was resolved to it.
\<close>

theorem main_script_in_deps_iff_recorded:
  "(dep_keys (selected_script st) \<subseteq> set (recorded_paths log) \<longrightarrow>
      run_actions n h acts st log = Inr (st', log') \<longrightarrow>
      dep_keys (selected_script st') \<subseteq> set (recorded_paths log')
      \<and> (has_dep (selected_script st') (file_path (selected_script st')) \<noteq> None \<longrightarrow>
           file_path (selected_script st') \<in> set (recorded_paths log')))
   \<and> (set_selected_script n h fs script sel = Inr (sel', evs) \<longrightarrow>
        file_path sel' = file_path script
        \<and> dep_keys sel' = set (recorded_paths evs)
        \<and> (has_dep sel' (file_path sel') \<noteq> None \<longleftrightarrow> file_path script \<in> set (recorded_paths evs))
        \<and> (\<forall>p\<in>set (recorded_paths evs).
              \<exists>m ls raw c s. lines_of fs m = Some ls \<and> raw \<in> set ls
                \<and> expand_file_name h s c (trim2 raw) = Inr p \<and> mtime_of fs p \<noteq> None))"
proof -
  have a: "dep_keys (selected_script st') \<subseteq> set (recorded_paths log')
      \<and> (has_dep (selected_script st') (file_path (selected_script st')) \<noteq> None \<longrightarrow>
           file_path (selected_script st') \<in> set (recorded_paths log'))"
    if "dep_keys (selected_script st) \<subseteq> set (recorded_paths log)"
      and "run_actions n h acts st log = Inr (st', log')"
    using run_actions_keys [OF that] by (auto simp: has_dep_None)
  have b: "file_path sel' = file_path script
        \<and> dep_keys sel' = set (recorded_paths evs)
        \<and> (has_dep sel' (file_path sel') \<noteq> None \<longleftrightarrow> file_path script \<in> set (recorded_paths evs))
        \<and> (\<forall>p\<in>set (recorded_paths evs).
              \<exists>m ls raw c s. lines_of fs m = Some ls \<and> raw \<in> set ls
                \<and> expand_file_name h s c (trim2 raw) = Inr p \<and> mtime_of fs p \<noteq> None)"
    if r: "set_selected_script n h fs script sel = Inr (sel', evs)"
    using set_selected_script_probes [OF r] set_selected_script_resolved [OF r]
    by (auto simp: has_dep_None)
  show ?thesis using a b by blast
qed

theorem main_script_in_deps_iff_recorded_witness:
  "dep_keys (selected_script (chooser_of sel0)) = {}
   \<and> run_actions 2 posix_host [(SetActive scr_a, fs_pkg), (Tick, fs_manifest)] (chooser_of sel0) []
      = Inr (st_manifest,
             [DepProbe ''lib.py'' ''/t/lib.py'' True, DepProbe ''lib2.py'' ''/t/lib2.py'' True,
              RefreshChooser])
   \<and> file_path (selected_script st_manifest) = ''/t/a.py''
   \<and> has_dep (selected_script st_manifest) ''/t/a.py'' = None
   \<and> set_selected_script 3 posix_host fs_loop scr_a sel0 =
       Inr (sel_loop, [DepProbe ''a.py'' ''/t/a.py'' True, DepProbe ''a.py'' ''/t/a.py'' True,
                       DepProbe ''a.py'' ''/t/a.py'' True])
   \<and> dep_keys sel_loop = {''/t/a.py''}"
proof -
  have i: "dep_keys (selected_script (chooser_of sel0)) \<subseteq> set (recorded_paths [])"
    "dep_keys (selected_script (chooser_of sel0)) = {}"
    by (simp_all add: chooser_of_def sel0_def dep_keys_def)
  have f: "file_path (selected_script st_manifest) = ''/t/a.py''"
    by (simp add: st_manifest_def chooser_of_def)
  have "has_dep (selected_script st_manifest) (file_path (selected_script st_manifest)) \<noteq> None \<longrightarrow>
      file_path (selected_script st_manifest)
        \<in> set (recorded_paths [DepProbe ''lib.py'' ''/t/lib.py'' True,
                                DepProbe ''lib2.py'' ''/t/lib2.py'' True, RefreshChooser])"
    using main_script_in_deps_iff_recorded
      [of "chooser_of sel0" "[]" 2 posix_host "[(SetActive scr_a, fs_pkg), (Tick, fs_manifest)]"
          st_manifest "[DepProbe ''lib.py'' ''/t/lib.py'' True,
                        DepProbe ''lib2.py'' ''/t/lib2.py'' True, RefreshChooser]"]
      i(1) run_example
    by blast
  then have a: "has_dep (selected_script st_manifest) ''/t/a.py'' = None"
    unfolding f by simp
  have "dep_keys sel_loop
      = set (recorded_paths [DepProbe ''a.py'' ''/t/a.py'' True, DepProbe ''a.py'' ''/t/a.py'' True,
                             DepProbe ''a.py'' ''/t/a.py'' True])"
    using main_script_in_deps_iff_recorded
      [of _ _ 3 posix_host _ _ _ fs_loop scr_a sel0 sel_loop
          "[DepProbe ''a.py'' ''/t/a.py'' True, DepProbe ''a.py'' ''/t/a.py'' True,
            DepProbe ''a.py'' ''/t/a.py'' True]"]
      select_loop
    by blast
  then have b: "dep_keys sel_loop = {''/t/a.py''}"
    by simp
  show ?thesis
    using i(2) run_example f a select_loop b by simp
qed

end
